theory Spec2Isabelle
  imports Main
begin

section \<open>Values that cross the boundary of the program\<close>

text \<open>
  A JavaScript string is represented by the bytes of its UTF-8 encoding, one \<open>char\<close> per
  byte; a \<open>Buffer\<close> is a list of bytes as well. So \<open>Buffer.from(s, 'utf8')\<close> and
  \<open>toString('utf8')\<close> of well-formed text are the identity on the representation, and a list
  of bytes that is not well-formed UTF-8 stands for no JavaScript string. The text of an error
  message that the engine makes up itself (\<open>SyntaxError\<close>, \<open>TypeError\<close>) is not modelled:
  its name stands for it.
\<close>

text \<open>
  A thrown value is an \<open>Error\<close> with a message, or something else; the \<open>catch\<close> blocks turn it
  into \<open>error instanceof Error ? error.message : 'Unknown error'\<close>.
\<close>

datatype thrown = Error string | NonError

definition message_of :: "thrown \<Rightarrow> string" where
  "message_of t = (case t of Error m \<Rightarrow> m | NonError \<Rightarrow> ''Unknown error'')"

text \<open>
  The outcome of \<open>await fetchWithTimeout(...)\<close> and of reading the body: the fetch throws
  (network failure, abort by the timeout); the response is not \<open>ok\<close> and has a text body; the
  response is \<open>ok\<close> and \<open>json()\<close> gives a payload; a body cannot be read.
\<close>

datatype 'a fetched =
    Throws thrown
  | NotOk string
  | OkJson 'a
  | BodyThrows thrown

section \<open>The challenge codec (oauth.ts)\<close>

subsection \<open>Buffers and base64\<close>

text \<open>
  \<open>buf.toString('base64')\<close> and \<open>buf.toString('base64url')\<close> after RFC 4648: the bytes are
  regrouped into sextets, three bytes to four sextets, and every sextet is looked up in the
  alphabet; the standard encoding pads with \<open>=\<close> to a multiple of four, the URL-safe one
  does not pad.
\<close>

definition b64_alphabet :: string where
  "b64_alphabet = ''ABCDEFGHIJKLMNOPQRSTUVWXYZabcdefghijklmnopqrstuvwxyz0123456789+/''"

definition b64url_alphabet :: string where
  "b64url_alphabet = ''ABCDEFGHIJKLMNOPQRSTUVWXYZabcdefghijklmnopqrstuvwxyz0123456789-_''"

fun sextets :: "string \<Rightarrow> nat list" where
  "sextets (a # b # c # rest) =
     [of_char a div 4,
      (of_char a mod 4) * 16 + of_char b div 16,
      (of_char b mod 16) * 4 + of_char c div 64,
      of_char c mod 64] @ sextets rest"
| "sextets [a, b] =
     [of_char a div 4, (of_char a mod 4) * 16 + of_char b div 16, (of_char b mod 16) * 4]"
| "sextets [a] = [of_char a div 4, (of_char a mod 4) * 16]"
| "sextets [] = []"

definition toString_base64 :: "string \<Rightarrow> string" where
  "toString_base64 buf =
     map (\<lambda>n. b64_alphabet ! n) (sextets buf) @ replicate ((3 - length buf mod 3) mod 3) (CHR ''='')"

definition toString_base64url :: "string \<Rightarrow> string" where
  "toString_base64url buf = map (\<lambda>n. b64url_alphabet ! n) (sextets buf)"

text \<open>
  \<open>Buffer.from(s, 'base64')\<close>: the decoder of Node accepts both alphabets, stops at the
  first \<open>=\<close> and skips every other character that belongs to neither alphabet; a last
  group of two or three sextets gives one or two bytes.
\<close>

fun index_of :: "'a \<Rightarrow> 'a list \<Rightarrow> nat option" where
  "index_of x [] = None"
| "index_of x (y # ys) = (if x = y then Some 0 else map_option Suc (index_of x ys))"

definition b64_value :: "char \<Rightarrow> nat option" where
  "b64_value c =
     (case index_of c b64_alphabet of
        Some n \<Rightarrow> Some n
      | None \<Rightarrow> index_of c b64url_alphabet)"

fun bytes_of_sextets :: "nat list \<Rightarrow> string" where
  "bytes_of_sextets (a # b # c # d # rest) =
     [char_of (a * 4 + b div 16), char_of ((b mod 16) * 16 + c div 4), char_of ((c mod 4) * 64 + d)]
       @ bytes_of_sextets rest"
| "bytes_of_sextets [a, b, c] = [char_of (a * 4 + b div 16), char_of ((b mod 16) * 16 + c div 4)]"
| "bytes_of_sextets [a, b] = [char_of (a * 4 + b div 16)]"
| "bytes_of_sextets [a] = []"
| "bytes_of_sextets [] = []"

definition from_base64 :: "string \<Rightarrow> string" where
  "from_base64 s =
     bytes_of_sextets (List.map_filter b64_value (takeWhile (\<lambda>c. c \<noteq> CHR ''='') s))"

text \<open>\<open>s.replace(/c/g, r)\<close> for a single character \<open>c\<close>.\<close>

definition replace_all :: "char \<Rightarrow> string \<Rightarrow> string \<Rightarrow> string" where
  "replace_all c r s = concat (map (\<lambda>x. if x = c then r else [x]) s)"

subsection \<open>JSON text\<close>

text \<open>
  The values of JSON. A number is kept as the text of its token: nothing below computes with
  it. The members of an object are kept in the order of the text.
\<close>

datatype json =
    JNull
  | JBool bool
  | JNumber string
  | JString string
  | JArray "json list"
  | JObject "(string \<times> json) list"

definition dquote :: char where "dquote = CHR 0x22"
definition backslash :: char where "backslash = CHR 0x5C"

text \<open>
  \<open>JSON.stringify\<close>: a string is quoted, with \<open>"\<close> and \<open>\\\<close> escaped, the control
  characters below 0x20 written as \<open>\b \f \n \r \t\<close> or \<open>\u00XX\<close>, and every other byte as
  it is; the members of an object and the elements of an array are joined with commas, with
  no white space.
\<close>

definition hex_digit :: "nat \<Rightarrow> char" where
  "hex_digit n = ''0123456789abcdef'' ! n"

definition escape_char :: "char \<Rightarrow> string" where
  "escape_char c =
     (if c = dquote then [backslash, dquote]
      else if c = backslash then [backslash, backslash]
      else if c = CHR 0x08 then [backslash, CHR ''b'']
      else if c = CHR 0x0C then [backslash, CHR ''f'']
      else if c = CHR 0x0A then [backslash, CHR ''n'']
      else if c = CHR 0x0D then [backslash, CHR ''r'']
      else if c = CHR 0x09 then [backslash, CHR ''t'']
      else if (of_char c :: nat) < 32
        then [backslash, CHR ''u'', CHR ''0'', CHR ''0'',
              hex_digit (of_char c div 16), hex_digit (of_char c mod 16)]
      else [c])"

definition quote :: "string \<Rightarrow> string" where
  "quote s = dquote # concat (map escape_char s) @ [dquote]"

fun join :: "string \<Rightarrow> string list \<Rightarrow> string" where
  "join sep [] = []"
| "join sep [x] = x"
| "join sep (x # y # rest) = x @ sep @ join sep (y # rest)"

fun JSON_stringify :: "json \<Rightarrow> string" where
  "JSON_stringify JNull = ''null''"
| "JSON_stringify (JBool b) = (if b then ''true'' else ''false'')"
| "JSON_stringify (JNumber text) = text"
| "JSON_stringify (JString s) = quote s"
| "JSON_stringify (JArray xs) = ''['' @ join '','' (map JSON_stringify xs) @ '']''"
| "JSON_stringify (JObject ms) =
     ''{'' @ join '','' (map (\<lambda>m. quote (fst m) @ '':'' @ JSON_stringify (snd m)) ms) @ ''}''"

text \<open>
  \<open>JSON.parse\<close>, by recursive descent. \<open>parse_chars\<close> reads a string after its opening
  quote and returns its content and the text after the closing quote.
\<close>

definition is_ws :: "char \<Rightarrow> bool" where
  "is_ws c \<longleftrightarrow> c = CHR '' '' \<or> c = CHR 0x09 \<or> c = CHR 0x0A \<or> c = CHR 0x0D"

definition skip_ws :: "string \<Rightarrow> string" where
  "skip_ws s = dropWhile is_ws s"

definition is_digit :: "char \<Rightarrow> bool" where
  "is_digit c \<longleftrightarrow> (48::nat) \<le> of_char c \<and> (of_char c :: nat) \<le> 57"

definition hex_value :: "char \<Rightarrow> nat option" where
  "hex_value c =
     (let n = of_char c :: nat
      in if 48 \<le> n \<and> n \<le> 57 then Some (n - 48)
         else if 97 \<le> n \<and> n \<le> 102 then Some (n - 87)
         else if 65 \<le> n \<and> n \<le> 70 then Some (n - 55)
         else None)"

definition hex4 :: "char \<Rightarrow> char \<Rightarrow> char \<Rightarrow> char \<Rightarrow> nat option" where
  "hex4 a b c d =
     (case (hex_value a, hex_value b, hex_value c, hex_value d) of
        (Some w, Some x, Some y, Some z) \<Rightarrow> Some (((w * 16 + x) * 16 + y) * 16 + z)
      | _ \<Rightarrow> None)"

definition utf8_of_code :: "nat \<Rightarrow> string" where
  "utf8_of_code n =
     (if n < 128 then [char_of n]
      else if n < 2048 then [char_of (192 + n div 64), char_of (128 + n mod 64)]
      else if n < 65536 then
        [char_of (224 + n div 4096), char_of (128 + n div 64 mod 64), char_of (128 + n mod 64)]
      else
        [char_of (240 + n div 262144), char_of (128 + n div 4096 mod 64),
         char_of (128 + n div 64 mod 64), char_of (128 + n mod 64)])"

definition simple_escape :: "char \<Rightarrow> char option" where
  "simple_escape e =
     (if e = dquote then Some dquote
      else if e = backslash then Some backslash
      else if e = CHR ''/'' then Some (CHR ''/'')
      else if e = CHR ''b'' then Some (CHR 0x08)
      else if e = CHR ''f'' then Some (CHR 0x0C)
      else if e = CHR ''n'' then Some (CHR 0x0A)
      else if e = CHR ''r'' then Some (CHR 0x0D)
      else if e = CHR ''t'' then Some (CHR 0x09)
      else None)"

definition prepend :: "string \<Rightarrow> (string \<times> string) option \<Rightarrow> (string \<times> string) option" where
  "prepend bs r = map_option (\<lambda>p. (bs @ fst p, snd p)) r"

text \<open>
  A \<open>\u\<close> escape of a high surrogate followed by a \<open>\u\<close> escape of a low surrogate is one
  code point.
\<close>

definition surrogate_pair :: "nat \<Rightarrow> char \<Rightarrow> char \<Rightarrow> nat option \<Rightarrow> bool" where
  "surrogate_pair hi b u lo \<longleftrightarrow>
     b = backslash \<and> u = CHR ''u'' \<and> 55296 \<le> hi \<and> hi < 56320 \<and>
     (case lo of None \<Rightarrow> False | Some l \<Rightarrow> 56320 \<le> l \<and> l < 57344)"

fun parse_chars :: "string \<Rightarrow> (string \<times> string) option" where
  "parse_chars [] = None"
| "parse_chars (c # rest) =
     (if c = dquote then Some ([], rest)
      else if c = backslash then
        (case rest of
           [] \<Rightarrow> None
         | e # rest1 \<Rightarrow>
             if e = CHR ''u'' then
               (case rest1 of
                  h1 # h2 # h3 # h4 # rest2 \<Rightarrow>
                    (case hex4 h1 h2 h3 h4 of
                       None \<Rightarrow> None
                     | Some hi \<Rightarrow>
                         (case rest2 of
                            b # u # l1 # l2 # l3 # l4 # rest3 \<Rightarrow>
                              if surrogate_pair hi b u (hex4 l1 l2 l3 l4)
                              then prepend
                                     (utf8_of_code
                                        (65536 + (hi - 55296) * 1024 + (the (hex4 l1 l2 l3 l4) - 56320)))
                                     (parse_chars rest3)
                              else prepend (utf8_of_code hi) (parse_chars rest2)
                          | _ \<Rightarrow> prepend (utf8_of_code hi) (parse_chars rest2)))
                | _ \<Rightarrow> None)
             else
               (case simple_escape e of
                  None \<Rightarrow> None
                | Some x \<Rightarrow> prepend [x] (parse_chars rest1)))
      else if (of_char c :: nat) < 32 then None
      else prepend [c] (parse_chars rest))"

definition strip_prefix :: "string \<Rightarrow> string \<Rightarrow> string option" where
  "strip_prefix p s = (if take (length p) s = p then Some (drop (length p) s) else None)"

text \<open>A number token: the text of the token and what follows it.\<close>

definition parse_digits :: "string \<Rightarrow> (string \<times> string) option" where
  "parse_digits s =
     (if takeWhile is_digit s = [] then None else Some (takeWhile is_digit s, dropWhile is_digit s))"

definition parse_number :: "string \<Rightarrow> (string \<times> string) option" where
  "parse_number s =
     (let (sign, r0) = (case s of c # r \<Rightarrow> if c = CHR ''-'' then (''-'', r) else ('''', s) | [] \<Rightarrow> ('''', s))
      in case (case r0 of
                 [] \<Rightarrow> None
               | d # r \<Rightarrow> if d = CHR ''0'' then Some (''0'', r) else parse_digits r0) of
           None \<Rightarrow> None
         | Some (ip, r1) \<Rightarrow>
             (case (case r1 of
                      c # r \<Rightarrow> if c = CHR ''.'' then map_option (\<lambda>p. (CHR ''.'' # fst p, snd p)) (parse_digits r)
                               else Some ('''', r1)
                    | [] \<Rightarrow> Some ('''', r1)) of
                None \<Rightarrow> None
              | Some (fp, r2) \<Rightarrow>
                  (case (case r2 of
                           c # r \<Rightarrow>
                             if c = CHR ''e'' \<or> c = CHR ''E'' then
                               (case r of
                                  g # r' \<Rightarrow>
                                    if g = CHR ''+'' \<or> g = CHR ''-''
                                    then map_option (\<lambda>p. (c # g # fst p, snd p)) (parse_digits r')
                                    else map_option (\<lambda>p. (c # fst p, snd p)) (parse_digits r)
                                | [] \<Rightarrow> None)
                             else Some ('''', r2)
                         | [] \<Rightarrow> Some ('''', r2)) of
                     None \<Rightarrow> None
                   | Some (ep, r3) \<Rightarrow> Some (sign @ ip @ fp @ ep, r3))))"

text \<open>
  Values, the elements of an array after \<open>[\<close> and the members of an object after \<open>{\<close>.
  The first argument bounds the depth of the descent.
\<close>

fun parse_value :: "nat \<Rightarrow> string \<Rightarrow> (json \<times> string) option"
  and parse_elements :: "nat \<Rightarrow> json list \<Rightarrow> string \<Rightarrow> (json \<times> string) option"
  and parse_members :: "nat \<Rightarrow> (string \<times> json) list \<Rightarrow> string \<Rightarrow> (json \<times> string) option"
where
  "parse_value 0 s = None"
| "parse_value (Suc n) s =
     (case skip_ws s of
        [] \<Rightarrow> None
      | c # rest \<Rightarrow>
          if c = CHR ''{'' then
            (case skip_ws rest of
               [] \<Rightarrow> None
             | d # rest1 \<Rightarrow> if d = CHR ''}'' then Some (JObject [], rest1) else parse_members n [] rest)
          else if c = CHR ''['' then
            (case skip_ws rest of
               [] \<Rightarrow> None
             | d # rest1 \<Rightarrow> if d = CHR '']'' then Some (JArray [], rest1) else parse_elements n [] rest)
          else if c = dquote then map_option (\<lambda>p. (JString (fst p), snd p)) (parse_chars rest)
          else if strip_prefix ''true'' (c # rest) \<noteq> None
            then Some (JBool True, the (strip_prefix ''true'' (c # rest)))
          else if strip_prefix ''false'' (c # rest) \<noteq> None
            then Some (JBool False, the (strip_prefix ''false'' (c # rest)))
          else if strip_prefix ''null'' (c # rest) \<noteq> None
            then Some (JNull, the (strip_prefix ''null'' (c # rest)))
          else map_option (\<lambda>p. (JNumber (fst p), snd p)) (parse_number (c # rest)))"
| "parse_elements 0 acc s = None"
| "parse_elements (Suc n) acc s =
     (case parse_value n s of
        None \<Rightarrow> None
      | Some (v, rest) \<Rightarrow>
          (case skip_ws rest of
             [] \<Rightarrow> None
           | c # rest1 \<Rightarrow>
               if c = CHR '','' then parse_elements n (acc @ [v]) rest1
               else if c = CHR '']'' then Some (JArray (acc @ [v]), rest1)
               else None))"
| "parse_members 0 acc s = None"
| "parse_members (Suc n) acc s =
     (case skip_ws s of
        [] \<Rightarrow> None
      | q # rest \<Rightarrow>
          if q \<noteq> dquote then None
          else
            (case parse_chars rest of
               None \<Rightarrow> None
             | Some (key, rest1) \<Rightarrow>
                 (case skip_ws rest1 of
                    [] \<Rightarrow> None
                  | c # rest2 \<Rightarrow>
                      if c \<noteq> CHR '':'' then None
                      else
                        (case parse_value n rest2 of
                           None \<Rightarrow> None
                         | Some (v, rest3) \<Rightarrow>
                             (case skip_ws rest3 of
                                [] \<Rightarrow> None
                              | d # rest4 \<Rightarrow>
                                  if d = CHR '','' then parse_members n (acc @ [(key, v)]) rest4
                                  else if d = CHR ''}'' then Some (JObject (acc @ [(key, v)]), rest4)
                                  else None)))))"

text \<open>
  \<open>JSON.parse\<close>: the whole text must be one value. Every step of the descent consumes a
  character, so the length of the text bounds its depth.
\<close>

definition JSON_parse :: "string \<Rightarrow> string + json" where
  "JSON_parse s =
     (case parse_value (Suc (length s)) s of
        None \<Rightarrow> Inl ''SyntaxError''
      | Some (v, rest) \<Rightarrow> if skip_ws rest = [] then Inr v else Inl ''SyntaxError'')"

subsection \<open>PKCE pairs and the flow state\<close>

record PkcePair =
  challenge :: string
  verifier :: string

record AuthState =
  state_verifier :: string
  state_projectId :: string

text \<open>
  The two functions of Node's \<open>crypto\<close> the module calls: the source of random bytes and the
  SHA-256 digest of a string.
\<close>

record crypto =
  randomBytes :: "nat \<Rightarrow> string"
  sha256 :: "string \<Rightarrow> string"

text \<open>The three replacements after \<open>toString('base64')\<close>, in the order of the source.\<close>

definition base64_to_url :: "string \<Rightarrow> string" where
  "base64_to_url s =
     replace_all (CHR ''='') '''' (replace_all (CHR ''/'') ''_'' (replace_all (CHR ''+'') ''-'' s))"

definition generateRandomString :: "crypto \<Rightarrow> nat \<Rightarrow> string" where
  "generateRandomString lib len =
     take len (base64_to_url (toString_base64 (randomBytes lib len)))"

definition generatePKCE :: "crypto \<Rightarrow> PkcePair" where
  "generatePKCE lib =
     (let verifier = generateRandomString lib 64;
          hash = sha256 lib verifier;
          challenge = base64_to_url (toString_base64 hash)
      in \<lparr>challenge = challenge, verifier = verifier\<rparr>)"

definition encodeState :: "AuthState \<Rightarrow> string" where
  "encodeState st =
     toString_base64url
       (JSON_stringify (JObject [(''verifier'', JString (state_verifier st)),
                                 (''projectId'', JString (state_projectId st))]))"

text \<open>
  \<open>parsed.name\<close> for a parsed value that is not null: the member of an object (the last one
  under the name), and undefined for every other value.
\<close>

definition property :: "json \<Rightarrow> string \<Rightarrow> json option" where
  "property v name = (case v of JObject ms \<Rightarrow> map_of (rev ms) name | _ \<Rightarrow> None)"

definition decodeState :: "string \<Rightarrow> thrown + AuthState" where
  "decodeState st =
     (let normalized = replace_all (CHR ''_'') ''/'' (replace_all (CHR ''-'') ''+'' st);
          padded = normalized @ replicate ((4 - length normalized mod 4) mod 4) (CHR ''='');
          json = from_base64 padded
      in case JSON_parse json of
           Inl msg \<Rightarrow> Inl (Error msg)
         | Inr parsed \<Rightarrow>
             if parsed = JNull then Inl (Error ''TypeError'')
             else
               (case property parsed ''verifier'' of
                  Some (JString v) \<Rightarrow>
                    Inr \<lparr>state_verifier = v,
                         state_projectId =
                           (case property parsed ''projectId'' of Some (JString p) \<Rightarrow> p | _ \<Rightarrow> '''')\<rparr>
                | _ \<Rightarrow> Inl (Error ''Missing PKCE verifier in state'')))"

section \<open>The callback listener (server.ts)\<close>

text \<open>
  The module keeps two module-level variables, \<open>server\<close> and \<open>pendingOAuth\<close>. Every call of
  \<open>waitForOAuthCallback\<close> creates one promise and one timer; the closures stored in
  \<open>pendingOAuth\<close> (\<open>resolve\<close>, \<open>reject\<close>) refer to exactly that promise and that timer. The
  model numbers the calls: flow \<open>k\<close> owns promise \<open>k\<close> and timer \<open>k\<close>. A promise that is
  settled ignores every later \<open>resolve\<close> or \<open>reject\<close>, as a JavaScript promise does.
\<close>

record OAuthCallbackParams =
  code :: string
  state :: string

datatype promise_state =
    Pending
  | Resolved OAuthCallbackParams
  | Rejected string

text \<open>
  \<open>PendingOAuth\<close>: the expected state and the two closures. Both closures are determined
  by the flow they were created for, so the record holds the number of that flow.
\<close>

record PendingOAuth =
  flow :: nat
  expected :: string

record listener =
  server :: bool
  pendingOAuth :: "PendingOAuth option"
  promises :: "promise_state list"
  timers :: "(nat \<times> int) list"

definition initial :: listener where
  "initial = \<lparr>server = False, pendingOAuth = None, promises = [], timers = []\<rparr>"

definition settle :: "nat \<Rightarrow> promise_state \<Rightarrow> promise_state list \<Rightarrow> promise_state list" where
  "settle k v ps = (if k < length ps \<and> ps ! k = Pending then ps[k := v] else ps)"

definition clearTimeout :: "nat \<Rightarrow> listener \<Rightarrow> listener" where
  "clearTimeout k st = st\<lparr>timers := filter (\<lambda>t. fst t \<noteq> k) (timers st)\<rparr>"

text \<open>The closure \<open>reject\<close> of flow \<open>k\<close>: \<open>clearTimeout(timeout); reject(error)\<close>.\<close>

definition flow_reject :: "nat \<Rightarrow> string \<Rightarrow> listener \<Rightarrow> listener" where
  "flow_reject k err st =
     (let st1 = clearTimeout k st in st1\<lparr>promises := settle k (Rejected err) (promises st1)\<rparr>)"

text \<open>The closure \<open>resolve\<close> of flow \<open>k\<close>: \<open>clearTimeout(timeout); resolve(params)\<close>.\<close>

definition flow_resolve :: "nat \<Rightarrow> OAuthCallbackParams \<Rightarrow> listener \<Rightarrow> listener" where
  "flow_resolve k params st =
     (let st1 = clearTimeout k st in st1\<lparr>promises := settle k (Resolved params) (promises st1)\<rparr>)"

text \<open>
  A request as \<open>handleRequest\<close> sees it: \<open>req.url\<close> may be absent; otherwise \<open>new URL\<close> gives a
  path and the query parameters in order. \<open>searchParams.get\<close> returns the first value under a
  name, or null.
\<close>

record parsed_url =
  pathname :: string
  searchParams :: "(string \<times> string) list"

type_synonym request = "parsed_url option"

definition get_param :: "parsed_url \<Rightarrow> string \<Rightarrow> string option" where
  "get_param u name = map_of (searchParams u) name"

text \<open>JavaScript truthiness of a \<open>string | null\<close>: null and the empty string are falsy.\<close>

definition truthy :: "string option \<Rightarrow> bool" where
  "truthy v = (case v of None \<Rightarrow> False | Some s \<Rightarrow> s \<noteq> [])"

datatype page = NotFound | ERROR_HTML string | SUCCESS_HTML

record response =
  status :: nat
  body :: page

definition handleRequest :: "request \<Rightarrow> listener \<Rightarrow> response \<times> listener" where
  "handleRequest req st =
     (case req of
        None \<Rightarrow> (\<lparr>status = 404, body = NotFound\<rparr>, st)
      | Some parsedUrl \<Rightarrow>
          if pathname parsedUrl \<noteq> ''/oauth-callback''
          then (\<lparr>status = 404, body = NotFound\<rparr>, st)
          else
            let code = get_param parsedUrl ''code'';
                state = get_param parsedUrl ''state'';
                error = get_param parsedUrl ''error''
            in
              if truthy error then
                (\<lparr>status = 400, body = ERROR_HTML (the error)\<rparr>,
                 (case pendingOAuth st of
                    None \<Rightarrow> st
                  | Some p \<Rightarrow>
                      (flow_reject (flow p) (''OAuth error: '' @ the error) st)
                        \<lparr>pendingOAuth := None\<rparr>))
              else if \<not> truthy code \<or> \<not> truthy state then
                (\<lparr>status = 400, body = ERROR_HTML ''Missing code or state parameter''\<rparr>,
                 (case pendingOAuth st of
                    None \<Rightarrow> st
                  | Some p \<Rightarrow>
                      (flow_reject (flow p) ''Missing code or state parameter'' st)
                        \<lparr>pendingOAuth := None\<rparr>))
              else
                (case pendingOAuth st of
                   None \<Rightarrow> (\<lparr>status = 200, body = SUCCESS_HTML\<rparr>, st)
                 | Some p \<Rightarrow>
                     if expected p \<noteq> the state then
                       (\<lparr>status = 400, body = ERROR_HTML ''State mismatch - possible CSRF attack''\<rparr>,
                        (flow_reject (flow p) ''State mismatch'' st)\<lparr>pendingOAuth := None\<rparr>)
                     else
                       (\<lparr>status = 200, body = SUCCESS_HTML\<rparr>,
                        (flow_resolve (flow p) \<lparr>code = the code, state = the state\<rparr> st)
                          \<lparr>pendingOAuth := None\<rparr>)))"

text \<open>
  \<open>startOAuthServer\<close>: nothing happens when the server exists; otherwise the outcome of
  \<open>listen\<close> (the argument \<open>bound\<close>) decides, and a failed bind resets \<open>server\<close> to null.
\<close>

definition startOAuthServer :: "bool \<Rightarrow> listener \<Rightarrow> bool \<times> listener" where
  "startOAuthServer bound st =
     (if server st then (True, st) else (bound, st\<lparr>server := bound\<rparr>))"

definition stopOAuthServer :: "listener \<Rightarrow> listener" where
  "stopOAuthServer st =
     (let st1 = st\<lparr>server := False\<rparr>
      in case pendingOAuth st1 of
           None \<Rightarrow> st1
         | Some p \<Rightarrow> (flow_reject (flow p) ''OAuth server stopped'' st1)\<lparr>pendingOAuth := None\<rparr>)"

text \<open>
  \<open>waitForOAuthCallback\<close> returns the new promise (its number) and the new state. An existing
  pending flow is rejected through its own closure; the variable is then overwritten.
\<close>

definition waitForOAuthCallback :: "string \<Rightarrow> int \<Rightarrow> listener \<Rightarrow> nat \<times> listener" where
  "waitForOAuthCallback st8 timeoutMs st =
     (let k = length (promises st);
          st1 = st\<lparr>promises := promises st @ [Pending]\<rparr>;
          st2 = (case pendingOAuth st1 of
                   None \<Rightarrow> st1
                 | Some p \<Rightarrow> flow_reject (flow p) ''New OAuth flow started'' st1);
          st3 = st2\<lparr>timers := timers st2 @ [(k, timeoutMs)]\<rparr>
      in (k, st3\<lparr>pendingOAuth := Some \<lparr>flow = k, expected = st8\<rparr>\<rparr>))"

text \<open>
  The timer callback of flow \<open>k\<close>. It runs only while timer \<open>k\<close> is armed, and it acts on
  whatever \<open>pendingOAuth\<close> holds at that moment.
\<close>

definition timeout_fires :: "nat \<Rightarrow> listener \<Rightarrow> listener" where
  "timeout_fires k st =
     (if k \<in> fst ` set (timers st) then
        (let st1 = clearTimeout k st
         in case pendingOAuth st1 of
              None \<Rightarrow> st1
            | Some p \<Rightarrow> (flow_reject (flow p) ''OAuth callback timeout'' st1)\<lparr>pendingOAuth := None\<rparr>)
      else st)"

text \<open>Everything that can happen to the listener, and a run of such events.\<close>

datatype event =
    Start bool
  | Stop
  | Wait string int
  | Request request
  | Timeout nat

fun step :: "event \<Rightarrow> listener \<Rightarrow> listener" where
  "step (Start bound) st = snd (startOAuthServer bound st)"
| "step Stop st = stopOAuthServer st"
| "step (Wait s ms) st = snd (waitForOAuthCallback s ms st)"
| "step (Request req) st = snd (handleRequest req st)"
| "step (Timeout k) st = timeout_fires k st"

definition run :: "event list \<Rightarrow> listener \<Rightarrow> listener" where
  "run evs st = fold step evs st"

text \<open>The flows whose promise is still unsettled.\<close>

definition unsettled :: "promise_state list \<Rightarrow> nat list" where
  "unsettled ps = filter (\<lambda>k. ps ! k = Pending) [0..<length ps]"

definition live_flows :: "listener \<Rightarrow> nat list" where
  "live_flows st = unsettled (promises st)"

text \<open>The flows whose timer is still armed.\<close>

definition armed :: "listener \<Rightarrow> nat list" where
  "armed st = map fst (timers st)"

text \<open>
  Single flight: the only unsettled promise and the only armed timer are those of the flow
  held in \<open>pendingOAuth\<close>.
\<close>

definition single_flight :: "listener \<Rightarrow> bool" where
  "single_flight st =
     (case pendingOAuth st of
        None \<Rightarrow> live_flows st = [] \<and> armed st = []
      | Some p \<Rightarrow> live_flows st = [flow p] \<and> armed st = [flow p])"

text \<open>
  The error a callback is rejected with when its state differs from the expected one: the
  checks of \<open>handleRequest\<close> in their order.
\<close>

definition rejection_reason :: "parsed_url \<Rightarrow> string" where
  "rejection_reason u =
     (if truthy (get_param u ''error'') then ''OAuth error: '' @ the (get_param u ''error'')
      else if \<not> truthy (get_param u ''code'') \<or> \<not> truthy (get_param u ''state'')
      then ''Missing code or state parameter''
      else ''State mismatch'')"

text \<open>A callback that carries the code \<open>c\<close> and the state \<open>s\<close>, and no error.\<close>

definition matching_callback :: "string \<Rightarrow> string \<Rightarrow> parsed_url \<Rightarrow> bool" where
  "matching_callback c s u \<longleftrightarrow>
     pathname u = ''/oauth-callback'' \<and> get_param u ''code'' = Some c \<and> c \<noteq> [] \<and>
     get_param u ''state'' = Some s \<and> s \<noteq> [] \<and> \<not> truthy (get_param u ''error'')"

text \<open>The promise of a flow is resolved only with the state the flow expects.\<close>

definition correlated :: "nat \<Rightarrow> string \<Rightarrow> listener \<Rightarrow> bool" where
  "correlated k s st \<longleftrightarrow>
     k < length (promises st) \<and>
     (case promises st ! k of
        Pending \<Rightarrow> pendingOAuth st = Some \<lparr>flow = k, expected = s\<rparr>
      | Resolved p \<Rightarrow> state p = s
      | Rejected msg \<Rightarrow> True)"

section \<open>The token manager (token-manager.ts) and token refresh (oauth.ts)\<close>

subsection \<open>What the environment supplies\<close>

record GoogleTokenResponse =
  access_token :: string
  expires_in :: int
  refresh_token :: "string option"
  token_type :: string

record GoogleUserInfo =
  userinfo_email :: "string option"
  userinfo_name :: "string option"
  userinfo_picture :: "string option"

text \<open>
  What \<open>loadCodeAssist\<close> answers under \<open>cloudaicompanionProject\<close>: a string, an object
  (with its \<open>id\<close> when that is a string), or anything else, absent included.
\<close>

datatype project_answer =
    ProjectString string
  | ProjectObject "string option"
  | ProjectOther

text \<open>
  The provider and the clock. \<open>clock k\<close> is the value of the \<open>k\<close>-th reading of the time
  (\<open>Date.now()\<close>, \<open>new Date()\<close>); \<open>token_refresh k rt\<close> is what the token endpoint does with the
  \<open>k\<close>-th refresh-grant request, which carries the refresh token \<open>rt\<close>;
  \<open>token_exchange code verifier\<close> is what it does with an authorization-code request;
  \<open>userinfo token\<close> is the answer of the user-info endpoint to a bearer token; and
  \<open>loadCodeAssist endpoint token\<close> is the answer of one discovery endpoint.
\<close>

record provider =
  clock :: "nat \<Rightarrow> int"
  token_refresh :: "nat \<Rightarrow> string \<Rightarrow> GoogleTokenResponse fetched"
  token_exchange :: "string \<Rightarrow> string \<Rightarrow> GoogleTokenResponse fetched"
  userinfo :: "string \<Rightarrow> GoogleUserInfo fetched"
  loadCodeAssist :: "string \<Rightarrow> string \<Rightarrow> project_answer fetched"

subsection \<open>Stored tokens and the credential store\<close>

text \<open>
  \<open>AntigravityTokens\<close> and, with the two dates, the stored record. Dates are kept as epoch
  milliseconds: the source stores \<open>new Date().toISOString()\<close> and reads it back with
  \<open>new Date(s).getTime()\<close>, which are inverse to each other.
\<close>

record AntigravityTokens =
  accessToken :: string
  refreshToken :: string
  expiresAt :: int
  projectId :: string
  email :: "string option"

record AntigravityStoredTokens = AntigravityTokens +
  createdAt :: int
  lastUsedAt :: "int option"

type_synonym secure_storage = "(string \<times> AntigravityStoredTokens) list"

text \<open>
  Modelled from the spec: the four functions of \<open>store/secureStorage\<close>, which is not among the
  sources. Section 4.4 of the specification: \<open>put\<close> is an upsert that replaces any record under
  the id, \<open>get\<close> returns the record or absent, \<open>list\<close> enumerates the ids in a stable order,
  \<open>delete\<close> returns whether a record existed and was removed. An upsert of a stored id keeps
  its place in the enumeration; a new id goes to the end. The snapshot is not written here:
  \<open>syncToOpenCodePlugin\<close> is a private function of the token manager, which calls it itself
  after \<open>storeAntigravityTokens\<close> and \<open>deleteAntigravityTokens\<close>.
\<close>

definition storeAntigravityTokens ::
    "string \<Rightarrow> AntigravityStoredTokens \<Rightarrow> secure_storage \<Rightarrow> secure_storage" where
  "storeAntigravityTokens accountId tokens s =
     (if accountId \<in> fst ` set s
      then map (\<lambda>e. if fst e = accountId then (accountId, tokens) else e) s
      else s @ [(accountId, tokens)])"

definition getAntigravityTokens :: "string \<Rightarrow> secure_storage \<Rightarrow> AntigravityStoredTokens option" where
  "getAntigravityTokens accountId s = map_of s accountId"

definition deleteAntigravityTokens :: "string \<Rightarrow> secure_storage \<Rightarrow> bool \<times> secure_storage" where
  "deleteAntigravityTokens accountId s =
     (accountId \<in> fst ` set s, filter (\<lambda>e. fst e \<noteq> accountId) s)"

definition listAntigravityAccounts :: "secure_storage \<Rightarrow> string list" where
  "listAntigravityAccounts s = map fst s"

subsection \<open>The state the token manager works on\<close>

record plugin_account =
  plugin_email :: "string option"
  plugin_refreshToken :: string
  plugin_projectId :: string
  addedAt :: int
  lastUsed :: int

record plugin_storage =
  version :: nat
  accounts :: "plugin_account list"
  activeIndex :: nat

text \<open>
  The credential store, the file of the OpenCode plugin (absent or with a content), the
  refresh-grant requests sent so far (the refresh token of each) and the number of clock
  readings so far. The file system is taken to be writable: \<open>mkdir\<close>, \<open>writeFile\<close> and
  \<open>unlink\<close> do what they are asked.
\<close>

record world =
  store :: secure_storage
  plugin_file :: "plugin_storage option"
  refresh_requests :: "string list"
  ticks :: nat

definition TOKEN_REFRESH_BUFFER_MS :: int where
  "TOKEN_REFRESH_BUFFER_MS = 5 * 60 * 1000"

definition ANTIGRAVITY_DEFAULT_PROJECT_ID :: string where
  "ANTIGRAVITY_DEFAULT_PROJECT_ID = ''rising-fact-p41fc''"

text \<open>Reading the clock: the value and the state with one more reading.\<close>

definition read_clock :: "provider \<Rightarrow> world \<Rightarrow> int \<times> world" where
  "read_clock env w = (clock env (ticks w), w\<lparr>ticks := Suc (ticks w)\<rparr>)"

subsection \<open>The snapshot for the OpenCode plugin\<close>

text \<open>
  The loop of \<open>syncToOpenCodePlugin\<close>: one entry for every listed id whose record exists and
  has a non-empty refresh token.
\<close>

definition plugin_entry :: "AntigravityStoredTokens \<Rightarrow> plugin_account" where
  "plugin_entry tokens =
     \<lparr>plugin_email = email tokens,
      plugin_refreshToken = refreshToken tokens,
      plugin_projectId = projectId tokens,
      addedAt = createdAt tokens,
      lastUsed = (case lastUsedAt tokens of None \<Rightarrow> createdAt tokens | Some t \<Rightarrow> t)\<rparr>"

fun collect_accounts :: "secure_storage \<Rightarrow> string list \<Rightarrow> plugin_account list" where
  "collect_accounts s [] = []"
| "collect_accounts s (accountId # rest) =
     (case getAntigravityTokens accountId s of
        None \<Rightarrow> collect_accounts s rest
      | Some tokens \<Rightarrow>
          if refreshToken tokens \<noteq> []
          then plugin_entry tokens # collect_accounts s rest
          else collect_accounts s rest)"

definition syncToOpenCodePlugin :: "world \<Rightarrow> world" where
  "syncToOpenCodePlugin w =
     (let accounts = collect_accounts (store w) (listAntigravityAccounts (store w))
      in if length accounts = 0 then w\<lparr>plugin_file := None\<rparr>
         else w\<lparr>plugin_file := Some \<lparr>version = 3, accounts = accounts, activeIndex = 0\<rparr>\<rparr>)"

subsection \<open>Refreshing and handing out tokens\<close>

definition calculateTokenExpiry :: "int \<Rightarrow> int \<Rightarrow> int" where
  "calculateTokenExpiry startTime expiresIn = startTime + expiresIn * 1000"

record refreshed =
  new_accessToken :: string
  new_expiresAt :: int

text \<open>
  \<open>refreshAccessToken\<close>: the result is \<open>{error}\<close> (\<open>Inl\<close>) or \<open>{accessToken, expiresAt}\<close>
  (\<open>Inr\<close>). Nothing else of the payload is returned.
\<close>

definition refreshAccessToken :: "provider \<Rightarrow> string \<Rightarrow> world \<Rightarrow> (string + refreshed) \<times> world" where
  "refreshAccessToken env rt w =
     (let (startTime, w1) = read_clock env w;
          response = token_refresh env (length (refresh_requests w1)) rt;
          w2 = w1\<lparr>refresh_requests := refresh_requests w1 @ [rt]\<rparr>
      in case response of
           Throws t \<Rightarrow> (Inl (message_of t), w2)
         | NotOk errorText \<Rightarrow> (Inl errorText, w2)
         | BodyThrows t \<Rightarrow> (Inl (message_of t), w2)
         | OkJson tokenPayload \<Rightarrow>
             (Inr \<lparr>new_accessToken = access_token tokenPayload,
                   new_expiresAt = calculateTokenExpiry startTime (expires_in tokenPayload)\<rparr>, w2))"

record valid_token =
  token :: string
  token_projectId :: string

definition getValidAccessToken :: "provider \<Rightarrow> string \<Rightarrow> world \<Rightarrow> valid_token option \<times> world" where
  "getValidAccessToken env accountId w =
     (case getAntigravityTokens accountId (store w) of
        None \<Rightarrow> (None, w)
      | Some tokens \<Rightarrow>
          let (now, w1) = read_clock env w
          in if expiresAt tokens - now \<le> TOKEN_REFRESH_BUFFER_MS then
               (let (refreshResult, w2) = refreshAccessToken env (refreshToken tokens) w1
                in case refreshResult of
                     Inl err \<Rightarrow> (None, w2)
                   | Inr r \<Rightarrow>
                       let (stamp, w3) = read_clock env w2;
                           updatedTokens = tokens\<lparr>accessToken := new_accessToken r,
                                                   expiresAt := new_expiresAt r,
                                                   lastUsedAt := Some stamp\<rparr>
                       in (Some \<lparr>token = new_accessToken r, token_projectId = projectId tokens\<rparr>,
                           w3\<lparr>store := storeAntigravityTokens accountId updatedTokens (store w3)\<rparr>))
             else
               (let (stamp, w2) = read_clock env w1
                in (Some \<lparr>token = accessToken tokens, token_projectId = projectId tokens\<rparr>,
                    w2\<lparr>store := storeAntigravityTokens accountId
                                   (tokens\<lparr>lastUsedAt := Some stamp\<rparr>) (store w2)\<rparr>)))"

record any_token =
  any_accountId :: string
  any_token :: string
  any_projectId :: string

text \<open>The loop of \<open>getAnyValidAccessToken\<close> over the ids listed before it starts.\<close>

fun try_accounts :: "provider \<Rightarrow> string list \<Rightarrow> world \<Rightarrow> any_token option \<times> world" where
  "try_accounts env [] w = (None, w)"
| "try_accounts env (accountId # rest) w =
     (case getValidAccessToken env accountId w of
        (Some result, w') \<Rightarrow>
          (Some \<lparr>any_accountId = accountId, any_token = token result,
                 any_projectId = token_projectId result\<rparr>, w')
      | (None, w') \<Rightarrow> try_accounts env rest w')"

definition getAnyValidAccessToken :: "provider \<Rightarrow> world \<Rightarrow> any_token option \<times> world" where
  "getAnyValidAccessToken env w = try_accounts env (listAntigravityAccounts (store w)) w"

subsection \<open>Logging out\<close>

definition logout :: "string \<Rightarrow> world \<Rightarrow> bool \<times> world" where
  "logout accountId w =
     (let (deleted, s) = deleteAntigravityTokens accountId (store w);
          w1 = w\<lparr>store := s\<rparr>
      in (deleted, if deleted then syncToOpenCodePlugin w1 else w1))"

fun delete_each :: "string list \<Rightarrow> nat \<Rightarrow> secure_storage \<Rightarrow> nat \<times> secure_storage" where
  "delete_each [] count s = (count, s)"
| "delete_each (accountId # rest) count s =
     (case deleteAntigravityTokens accountId s of
        (True, s') \<Rightarrow> delete_each rest (Suc count) s'
      | (False, s') \<Rightarrow> delete_each rest count s')"

definition logoutAll :: "world \<Rightarrow> nat \<times> world" where
  "logoutAll w =
     (let (count, s) = delete_each (listAntigravityAccounts (store w)) 0 (store w);
          w1 = w\<lparr>store := s\<rparr>
      in (count, if count > 0 then syncToOpenCodePlugin w1 else w1))"

definition isAuthenticated :: "world \<Rightarrow> bool" where
  "isAuthenticated w = (length (listAntigravityAccounts (store w)) > 0)"

subsection \<open>The configuration (constants.ts)\<close>

definition ANTIGRAVITY_CLIENT_ID :: string where
  "ANTIGRAVITY_CLIENT_ID = ''1071006060591-tmhssin2h21lcre235vtolojh4g403ep.apps.googleusercontent.com''"

definition ANTIGRAVITY_SCOPES :: "string list" where
  "ANTIGRAVITY_SCOPES =
     [''https://www.googleapis.com/auth/cloud-platform'',
      ''https://www.googleapis.com/auth/userinfo.email'',
      ''https://www.googleapis.com/auth/userinfo.profile'',
      ''https://www.googleapis.com/auth/cclog'',
      ''https://www.googleapis.com/auth/experimentsandconfigs'']"

definition ANTIGRAVITY_REDIRECT_URI :: string where
  "ANTIGRAVITY_REDIRECT_URI = ''http://localhost:51121/oauth-callback''"

definition ANTIGRAVITY_ENDPOINT_DAILY :: string where
  "ANTIGRAVITY_ENDPOINT_DAILY = ''https://daily-cloudcode-pa.sandbox.googleapis.com''"

definition ANTIGRAVITY_ENDPOINT_AUTOPUSH :: string where
  "ANTIGRAVITY_ENDPOINT_AUTOPUSH = ''https://autopush-cloudcode-pa.sandbox.googleapis.com''"

definition ANTIGRAVITY_ENDPOINT_PROD :: string where
  "ANTIGRAVITY_ENDPOINT_PROD = ''https://cloudcode-pa.googleapis.com''"

definition ANTIGRAVITY_ENDPOINT_FALLBACKS :: "string list" where
  "ANTIGRAVITY_ENDPOINT_FALLBACKS =
     [ANTIGRAVITY_ENDPOINT_DAILY, ANTIGRAVITY_ENDPOINT_AUTOPUSH, ANTIGRAVITY_ENDPOINT_PROD]"

definition ANTIGRAVITY_LOAD_ENDPOINTS :: "string list" where
  "ANTIGRAVITY_LOAD_ENDPOINTS =
     [ANTIGRAVITY_ENDPOINT_PROD, ANTIGRAVITY_ENDPOINT_DAILY, ANTIGRAVITY_ENDPOINT_AUTOPUSH]"

definition GOOGLE_AUTH_URL :: string where
  "GOOGLE_AUTH_URL = ''https://accounts.google.com/o/oauth2/v2/auth''"

subsection \<open>The authorization URL\<close>

text \<open>
  The URL is kept as the endpoint and the query parameters set on it, in the order of the
  calls of \<open>searchParams.set\<close>; its serialization is left to \<open>URL.toString\<close>.
\<close>

record authorization_url =
  endpoint :: string
  query :: "(string \<times> string) list"

record AuthorizationResult =
  url :: authorization_url
  auth_verifier :: string
  auth_state :: string

definition buildAuthorizationUrl :: "crypto \<Rightarrow> string \<Rightarrow> AuthorizationResult" where
  "buildAuthorizationUrl lib project =
     (let pkce = generatePKCE lib;
          st = encodeState \<lparr>state_verifier = verifier pkce, state_projectId = project\<rparr>
      in \<lparr>url = \<lparr>endpoint = GOOGLE_AUTH_URL,
                  query = [(''client_id'', ANTIGRAVITY_CLIENT_ID),
                           (''response_type'', ''code''),
                           (''redirect_uri'', ANTIGRAVITY_REDIRECT_URI),
                           (''scope'', join '' '' ANTIGRAVITY_SCOPES),
                           (''code_challenge'', challenge pkce),
                           (''code_challenge_method'', ''S256''),
                           (''state'', st),
                           (''access_type'', ''offline''),
                           (''prompt'', ''consent'')]\<rparr>,
          auth_verifier = verifier pkce,
          auth_state = st\<rparr>)"

subsection \<open>Exchanging the code\<close>

text \<open>\<open>Array.from(new Set(xs))\<close>: the first occurrence of every element, in order.\<close>

definition unique_in_order :: "'a list \<Rightarrow> 'a list" where
  "unique_in_order xs = fold (\<lambda>x acc. if x \<in> set acc then acc else acc @ [x]) xs []"

definition project_of :: "project_answer \<Rightarrow> string option" where
  "project_of a =
     (case a of
        ProjectString s \<Rightarrow> if s \<noteq> [] then Some s else None
      | ProjectObject (Some i) \<Rightarrow> if i \<noteq> [] then Some i else None
      | _ \<Rightarrow> None)"

text \<open>
  The loop of \<open>fetchProjectId\<close>. The errors it collects are only logged, so the model
  leaves them out.
\<close>

fun try_endpoints :: "provider \<Rightarrow> string \<Rightarrow> string list \<Rightarrow> string" where
  "try_endpoints env bearer [] = []"
| "try_endpoints env bearer (baseEndpoint # rest) =
     (case loadCodeAssist env baseEndpoint bearer of
        OkJson data \<Rightarrow>
          (case project_of data of
             Some project \<Rightarrow> project
           | None \<Rightarrow> try_endpoints env bearer rest)
      | _ \<Rightarrow> try_endpoints env bearer rest)"

definition fetchProjectId :: "provider \<Rightarrow> string \<Rightarrow> string" where
  "fetchProjectId env bearer =
     try_endpoints env bearer
       (unique_in_order (ANTIGRAVITY_LOAD_ENDPOINTS @ ANTIGRAVITY_ENDPOINT_FALLBACKS))"

datatype TokenExchangeResult =
    Success AntigravityTokens
  | Failed string

definition exchangeCodeForTokens ::
    "provider \<Rightarrow> string \<Rightarrow> string \<Rightarrow> world \<Rightarrow> TokenExchangeResult \<times> world" where
  "exchangeCodeForTokens env cd st w =
     (case decodeState st of
        Inl t \<Rightarrow> (Failed (message_of t), w)
      | Inr auth \<Rightarrow>
          let (startTime, w1) = read_clock env w
          in case token_exchange env cd (state_verifier auth) of
               Throws t \<Rightarrow> (Failed (message_of t), w1)
             | NotOk errorText \<Rightarrow> (Failed errorText, w1)
             | BodyThrows t \<Rightarrow> (Failed (message_of t), w1)
             | OkJson tokenPayload \<Rightarrow>
                 (case userinfo env (access_token tokenPayload) of
                    Throws t \<Rightarrow> (Failed (message_of t), w1)
                  | BodyThrows t \<Rightarrow> (Failed (message_of t), w1)
                  | answered \<Rightarrow>
                      let userInfoEmail = (case answered of OkJson info \<Rightarrow> userinfo_email info | _ \<Rightarrow> None)
                      in if \<not> truthy (refresh_token tokenPayload)
                         then (Failed ''Missing refresh token in response'', w1)
                         else
                           let effectiveProjectId =
                                 (if state_projectId auth \<noteq> [] then state_projectId auth
                                  else fetchProjectId env (access_token tokenPayload))
                           in (Success \<lparr>accessToken = access_token tokenPayload,
                                        refreshToken = the (refresh_token tokenPayload),
                                        expiresAt = calculateTokenExpiry startTime (expires_in tokenPayload),
                                        projectId = effectiveProjectId,
                                        email = userInfoEmail\<rparr>, w1)))"

subsection \<open>Logging in\<close>

record AntigravityAccount =
  account_id :: string
  account_email :: string
  account_projectId :: string
  account_createdAt :: int
  account_lastUsedAt :: "int option"

record LoginResult =
  success :: bool
  account :: "AntigravityAccount option"
  error :: "string option"

definition login_failed :: "string \<Rightarrow> LoginResult" where
  "login_failed msg = \<lparr>success = False, account = None, error = Some msg\<rparr>"

text \<open>The decimal digits of a natural number, for \<open>`account_${Date.now()}_...`\<close>.\<close>

function decimal :: "nat \<Rightarrow> string" where
  "decimal n =
     (if n < 10 then [char_of (48 + n)] else decimal (n div 10) @ [char_of (48 + n mod 10)])"
  by pat_completeness auto
termination
  by (relation "measure id") auto

declare decimal.simps [simp del]

definition generateAccountId :: "int \<Rightarrow> string \<Rightarrow> string" where
  "generateAccountId now suffix = ''account_'' @ decimal (nat now) @ ''_'' @ suffix"

text \<open>
  What the desktop does during one login: whether the port could be bound, whether the
  browser could be opened (\<open>shell.openExternal\<close> may reject), what happens to the listener
  while \<open>login\<close> awaits the callback, and the random suffix of the account id.
\<close>

record desktop =
  bound :: bool
  openExternal :: "thrown option"
  while_waiting :: "event list"
  random_suffix :: string

text \<open>The promise \<open>login\<close> awaits, as it is when the desktop has done its part.\<close>

definition awaited_callback :: "crypto \<Rightarrow> desktop \<Rightarrow> listener \<Rightarrow> promise_state" where
  "awaited_callback lib desk l0 =
     (let (serverStarted, l1) = startOAuthServer (bound desk) l0;
          (k, l2) = waitForOAuthCallback (auth_state (buildAuthorizationUrl lib [])) (5 * 60 * 1000) l1
      in promises (run (while_waiting desk) l2) ! k)"

text \<open>
  The error of an exchange whose token response has no refresh token: the user-info request
  comes first, and when it throws, its error is the result.
\<close>

definition exchange_error :: "provider \<Rightarrow> GoogleTokenResponse \<Rightarrow> string" where
  "exchange_error env tokenPayload =
     (case userinfo env (access_token tokenPayload) of
        Throws t \<Rightarrow> message_of t
      | BodyThrows t \<Rightarrow> message_of t
      | _ \<Rightarrow> ''Missing refresh token in response'')"

text \<open>
  \<open>login\<close>. The result is \<open>None\<close> while the promise of \<open>waitForOAuthCallback\<close> is unsettled:
  \<open>login\<close> has not returned then.
\<close>

definition login ::
    "crypto \<Rightarrow> provider \<Rightarrow> desktop \<Rightarrow> listener \<times> world \<Rightarrow> LoginResult option \<times> listener \<times> world" where
  "login lib env desk sys =
     (let (l0, w) = sys;
          (serverStarted, l1) = startOAuthServer (bound desk) l0
      in if \<not> serverStarted
         then (Some (login_failed ''Failed to start OAuth callback server. Port may be in use.''), l1, w)
         else
           let auth = buildAuthorizationUrl lib []
           in case openExternal desk of
                Some t \<Rightarrow> (Some (login_failed (message_of t)), l1, w)
              | None \<Rightarrow>
                  let (k, l2) = waitForOAuthCallback (auth_state auth) (5 * 60 * 1000) l1;
                      l3 = run (while_waiting desk) l2
                  in case promises l3 ! k of
                       Pending \<Rightarrow> (None, l3, w)
                     | Rejected msg \<Rightarrow> (Some (login_failed msg), l3, w)
                     | Resolved callback \<Rightarrow>
                         let (result, w1) = exchangeCodeForTokens env (code callback) (state callback) w
                         in case result of
                              Failed msg \<Rightarrow> (Some (login_failed msg), l3, w1)
                            | Success r \<Rightarrow>
                                let (idTime, w2) = read_clock env w1;
                                    accountId = generateAccountId idTime (random_suffix desk);
                                    (now, w3) = read_clock env w2;
                                    tokens = \<lparr>accessToken = accessToken r,
                                              refreshToken = refreshToken r,
                                              expiresAt = expiresAt r,
                                              projectId = (if projectId r \<noteq> [] then projectId r
                                                           else ANTIGRAVITY_DEFAULT_PROJECT_ID),
                                              email = email r,
                                              createdAt = now,
                                              lastUsedAt = Some now\<rparr>;
                                    w4 = w3\<lparr>store := storeAntigravityTokens accountId tokens (store w3)\<rparr>;
                                    w5 = syncToOpenCodePlugin w4
                                in (Some \<lparr>success = True,
                                          account = Some
                                            \<lparr>account_id = accountId,
                                             account_email = (if truthy (email r) then the (email r) else ''Unknown''),
                                             account_projectId = projectId tokens,
                                             account_createdAt = now,
                                             account_lastUsedAt = Some now\<rparr>,
                                          error = None\<rparr>, l3, w5))"

subsection \<open>Sequences of failing accounts, and example data\<close>

text \<open>
  \<open>after_failures env ids w\<close>: \<open>getValidAccessToken\<close> is called for the ids one after the
  other, starting in \<open>w\<close>, and fails for every one of them; the result is the state after
  the last call. It is \<open>None\<close> as soon as one call succeeds.
\<close>

fun after_failures :: "provider \<Rightarrow> string list \<Rightarrow> world \<Rightarrow> world option" where
  "after_failures env [] w = Some w"
| "after_failures env (accountId # rest) w =
     (case getValidAccessToken env accountId w of
        (None, w') \<Rightarrow> after_failures env rest w'
      | (Some result, w') \<Rightarrow> None)"

text \<open>Example data: a source of random bytes, and a stand-in for the digest.\<close>

definition demo_crypto :: crypto where
  "demo_crypto = \<lparr>randomBytes = (\<lambda>n. replicate n (CHR 0xFB)), sha256 = (\<lambda>s. take 32 s)\<rparr>"

text \<open>Example data: three accounts, the first two near expiry at time 5000000.\<close>

definition demo_record :: "string \<Rightarrow> string \<Rightarrow> int \<Rightarrow> AntigravityStoredTokens" where
  "demo_record at rt exp =
     \<lparr>accessToken = at, refreshToken = rt, expiresAt = exp, projectId = ''rising-fact-p41fc'',
      email = Some ''user@example.com'', createdAt = 1000, lastUsedAt = Some 1000\<rparr>"

definition demo_provider :: provider where
  "demo_provider =
     \<lparr>clock = (\<lambda>k. 5000000 + int k),
      token_refresh = (\<lambda>k rt.
        if rt = ''refresh-A'' then NotOk ''invalid_grant''
        else OkJson \<lparr>access_token = ''fresh-access'', expires_in = 3600,
                     refresh_token = Some ''rotated-refresh'', token_type = ''Bearer''\<rparr>),
      token_exchange = (\<lambda>code verifier.
        OkJson \<lparr>access_token = ''first-access'', expires_in = 3600,
                refresh_token = None, token_type = ''Bearer''\<rparr>),
      userinfo = (\<lambda>token.
        OkJson \<lparr>userinfo_email = Some ''user@example.com'', userinfo_name = None,
                userinfo_picture = None\<rparr>),
      loadCodeAssist = (\<lambda>endpoint token. NotOk ''forbidden'')\<rparr>"

definition demo_world :: world where
  "demo_world =
     \<lparr>store = [(''A'', demo_record ''stale-A'' ''refresh-A'' 5000000),
               (''B'', demo_record ''access-B'' ''refresh-B'' 9000000),
               (''C'', demo_record ''stale-C'' ''refresh-C'' 5200000)],
      plugin_file = None, refresh_requests = [], ticks = 0\<rparr>"

text \<open>Example data: a desktop on which the browser comes back with the right state.\<close>

definition demo_desktop :: desktop where
  "demo_desktop =
     \<lparr>bound = True,
      openExternal = None,
      while_waiting =
        [Request (Some \<lparr>pathname = ''/oauth-callback'',
                        searchParams = [(''code'', ''abc123''),
                                        (''state'', auth_state (buildAuthorizationUrl demo_crypto []))]\<rparr>)],
      random_suffix = ''k3x9q1''\<rparr>"

section \<open>Properties of the callback listener\<close>

lemma live_flows_initial: "live_flows initial = []"
  by (simp add: live_flows_def unsettled_def initial_def)


lemma unsettled_snoc: "unsettled (ps @ [Pending]) = unsettled ps @ [length ps]"
  by (auto simp: unsettled_def nth_append intro!: filter_cong)

lemma unsettled_settle:
  "v \<noteq> Pending \<Longrightarrow> unsettled (settle k v ps) = removeAll k (unsettled ps)"
  by (auto simp: unsettled_def settle_def removeAll_filter_not_eq nth_list_update filter_id_conv intro!: filter_cong)

lemma unsettled_less: "k \<in> set (unsettled ps) \<Longrightarrow> k < length ps"
  by (simp add: unsettled_def)

lemma map_fst_filter: "map fst (filter (\<lambda>t. fst t \<noteq> k) ts) = removeAll k (map fst ts)"
  by (induction ts) auto

lemma promises_reject:
  "unsettled (promises (flow_reject k e st)) = removeAll k (unsettled (promises st))"
  by (simp add: flow_reject_def clearTimeout_def Let_def unsettled_settle)

lemma promises_resolve:
  "unsettled (promises (flow_resolve k e st)) = removeAll k (unsettled (promises st))"
  by (simp add: flow_resolve_def clearTimeout_def Let_def unsettled_settle)

lemma timers_reject: "map fst (timers (flow_reject k e st)) = removeAll k (map fst (timers st))"
  by (simp add: flow_reject_def clearTimeout_def Let_def map_fst_filter)

lemma timers_resolve: "map fst (timers (flow_resolve k e st)) = removeAll k (map fst (timers st))"
  by (simp add: flow_resolve_def clearTimeout_def Let_def map_fst_filter)

lemmas frame = live_flows_def armed_def promises_reject promises_resolve timers_reject timers_resolve

lemma inv_handle: "single_flight st \<Longrightarrow> single_flight (snd (handleRequest req st))"
  by (cases "pendingOAuth st"; cases req) (simp_all add: single_flight_def handleRequest_def Let_def frame)

lemma inv_stop: "single_flight st \<Longrightarrow> single_flight (stopOAuthServer st)"
  by (cases "pendingOAuth st") (simp_all add: single_flight_def stopOAuthServer_def Let_def frame)

lemma inv_start: "single_flight st \<Longrightarrow> single_flight (snd (startOAuthServer b st))"
  by (cases "pendingOAuth st") (simp_all add: single_flight_def startOAuthServer_def Let_def frame)

lemma inv_wait: "single_flight st \<Longrightarrow> single_flight (snd (waitForOAuthCallback s ms st))"
proof (cases "pendingOAuth st")
  case None
  assume "single_flight st"
  with None show ?thesis
    by (simp add: single_flight_def waitForOAuthCallback_def Let_def frame unsettled_snoc)
next
  case (Some p)
  assume i: "single_flight st"
  with Some have "flow p \<in> set (unsettled (promises st))" by (simp add: single_flight_def frame)
  then have "flow p < length (promises st)" by (rule unsettled_less)
  with i Some show ?thesis
    by (simp add: single_flight_def waitForOAuthCallback_def Let_def frame unsettled_snoc)
qed

lemma inv_timeout: "single_flight st \<Longrightarrow> single_flight (timeout_fires k st)"
  by (cases "pendingOAuth st")
     (auto simp add: single_flight_def timeout_fires_def Let_def frame clearTimeout_def map_fst_filter
         flow_reject_def unsettled_settle)

lemma inv_step: "single_flight st \<Longrightarrow> single_flight (step e st)"
  by (cases e) (simp_all add: inv_handle inv_stop inv_start inv_wait inv_timeout)

lemma inv_run: "single_flight st \<Longrightarrow> single_flight (run evs st)"
  unfolding run_def by (induction evs arbitrary: st) (simp_all add: inv_step)



lemma inv_initial: "single_flight initial"
  by (simp add: single_flight_def initial_def live_flows_def armed_def unsettled_def)

lemma live_reachable:
  "live_flows (run evs initial) = (case pendingOAuth (run evs initial) of None \<Rightarrow> [] | Some p \<Rightarrow> [flow p])"
  using inv_run[OF inv_initial, of evs] by (simp add: single_flight_def split: option.splits)

lemma unsettled_mem: "k \<in> set (unsettled ps) \<longleftrightarrow> k < length ps \<and> ps ! k = Pending"
  by (auto simp: unsettled_def)

lemma pending_is_live:
  assumes "pendingOAuth (run evs initial) = Some p"
  shows "flow p < length (promises (run evs initial)) \<and> promises (run evs initial) ! flow p = Pending"
proof -
  have "flow p \<in> set (unsettled (promises (run evs initial)))"
    using live_reachable[of evs] assms by (simp add: live_flows_def)
  then show ?thesis by (simp add: unsettled_mem)
qed

lemma settle_nth:
  "k < length ps \<Longrightarrow> ps ! k = Pending \<Longrightarrow> settle k v ps ! k = v"
  by (simp add: settle_def)

lemma settle_other:
  "ps ! j \<noteq> Pending \<Longrightarrow> settle k v ps ! j = ps ! j"
  by (auto simp: settle_def nth_list_update)

lemma settle_length: "length (settle k v ps) = length ps"
  by (simp add: settle_def)

text \<open>A settled promise keeps its value.\<close>

lemma reject_settled:
  "promises st ! j \<noteq> Pending \<Longrightarrow> promises (flow_reject k e st) ! j = promises st ! j"
  by (simp add: flow_reject_def clearTimeout_def Let_def settle_other)

lemma resolve_settled:
  "promises st ! j \<noteq> Pending \<Longrightarrow> promises (flow_resolve k e st) ! j = promises st ! j"
  by (simp add: flow_resolve_def clearTimeout_def Let_def settle_other)

lemma reject_length: "length (promises (flow_reject k e st)) = length (promises st)"
  by (simp add: flow_reject_def clearTimeout_def Let_def settle_length)

lemma resolve_length: "length (promises (flow_resolve k e st)) = length (promises st)"
  by (simp add: flow_resolve_def clearTimeout_def Let_def settle_length)

lemma step_settled:
  assumes "j < length (promises st)" "promises st ! j \<noteq> Pending"
  shows "j < length (promises (step e st)) \<and> promises (step e st) ! j = promises st ! j"
proof (cases e)
  case (Start b)
  then show ?thesis using assms by (simp add: startOAuthServer_def)
next
  case Stop
  then show ?thesis using assms
    by (simp add: stopOAuthServer_def Let_def reject_settled reject_length split: option.splits)
next
  case (Wait s ms)
  then show ?thesis using assms
    by (simp add: waitForOAuthCallback_def Let_def reject_settled reject_length nth_append split: option.splits)
next
  case (Request req)
  then show ?thesis using assms
    by (simp add: handleRequest_def Let_def reject_settled reject_length resolve_settled resolve_length
        split: option.splits)
next
  case (Timeout k)
  then show ?thesis using assms
    by (simp add: timeout_fires_def Let_def reject_settled reject_length clearTimeout_def split: option.splits)
qed

lemma run_settled:
  "j < length (promises st) \<Longrightarrow> promises st ! j \<noteq> Pending \<Longrightarrow>
   j < length (promises (run evs st)) \<and> promises (run evs st) ! j = promises st ! j"
proof (induction evs arbitrary: st)
  case Nil
  then show ?case by (simp add: run_def)
next
  case (Cons e evs)
  from step_settled[OF Cons.prems, of e]
  have a: "j < length (promises (step e st))" and b: "promises (step e st) ! j = promises st ! j"
    by simp_all
  from Cons.IH[OF a] b Cons.prems(2) show ?case by (simp add: run_def)
qed

lemma reject_nth:
  "k < length (promises st) \<Longrightarrow> promises st ! k = Pending \<Longrightarrow>
   promises (flow_reject k e st) ! k = Rejected e"
  by (simp add: flow_reject_def clearTimeout_def Let_def settle_nth)

lemma resolve_nth:
  "k < length (promises st) \<Longrightarrow> promises st ! k = Pending \<Longrightarrow>
   promises (flow_resolve k v st) ! k = Resolved v"
  by (simp add: flow_resolve_def clearTimeout_def Let_def settle_nth)

lemma handle_mismatch:
  assumes p: "pendingOAuth st = Some p" "flow p < length (promises st)" "promises st ! flow p = Pending"
    and u: "pathname u = ''/oauth-callback''" "get_param u ''state'' = Some s" "s \<noteq> expected p"
  shows "status (fst (handleRequest (Some u) st)) = 400 \<and>
         pendingOAuth (snd (handleRequest (Some u) st)) = None \<and>
         promises (snd (handleRequest (Some u) st)) ! flow p = Rejected (rejection_reason u) \<and>
         length (promises (snd (handleRequest (Some u) st))) = length (promises st)"
  using assms
  by (auto simp add: handleRequest_def Let_def rejection_reason_def reject_nth reject_length)

text \<open>
  Claim C1, as the code has it. A request to \<open>/oauth-callback\<close> that carries a code and a
  state arrives while a flow is pending, and its state differs from the expected one. Then the
  pending promise, unsettled until now, is rejected and \<open>pendingOAuth\<close> is cleared; the answer
  is a 400 page; the promise is never resolved, whatever happens later. The error of the
  rejection is the one of the first check that fires: \<open>State mismatch\<close> when the code and the
  state are non-empty and no non-empty \<open>error\<close> parameter is present.
\<close>

theorem state_mismatch_rejects:
  assumes "st = run evs initial"
    and "pendingOAuth st = Some p"
    and "pathname u = ''/oauth-callback''"
    and "get_param u ''code'' = Some c"
    and "get_param u ''state'' = Some s"
    and "s \<noteq> expected p"
    and "handleRequest (Some u) st = (r, st')"
  shows "promises st ! flow p = Pending \<and>
         status r = 400 \<and>
         pendingOAuth st' = None \<and>
         promises st' ! flow p = Rejected (rejection_reason u) \<and>
         (c \<noteq> [] \<and> s \<noteq> [] \<and> \<not> truthy (get_param u ''error'')
            \<longrightarrow> promises st' ! flow p = Rejected ''State mismatch'') \<and>
         (\<forall>later. promises (run later st') ! flow p = Rejected (rejection_reason u))"
proof -
  from pending_is_live[of evs p] assms(1,2)
  have live: "flow p < length (promises st)" "promises st ! flow p = Pending" by simp_all
  from handle_mismatch[OF assms(2) live assms(3) assms(5) assms(6)] assms(7)
  have h: "status r = 400" "pendingOAuth st' = None"
    "promises st' ! flow p = Rejected (rejection_reason u)"
    "length (promises st') = length (promises st)" by simp_all
  have stable: "promises (run later st') ! flow p = Rejected (rejection_reason u)" for later
    using run_settled[of "flow p" st' later] h live by simp
  have "promises st' ! flow p = Rejected ''State mismatch''"
    if "c \<noteq> []" "s \<noteq> []" "\<not> truthy (get_param u ''error'')"
    using that h(3) assms(4,5) by (simp add: rejection_reason_def truthy_def)
  with live h stable show ?thesis by blast
qed



lemma wait_effect:
  assumes "pendingOAuth st = Some p" "flow p < length (promises st)" "promises st ! flow p = Pending"
  shows "fst (waitForOAuthCallback s ms st) = length (promises st) \<and>
         pendingOAuth (snd (waitForOAuthCallback s ms st)) = Some \<lparr>flow = length (promises st), expected = s\<rparr> \<and>
         promises (snd (waitForOAuthCallback s ms st)) ! flow p = Rejected ''New OAuth flow started'' \<and>
         promises (snd (waitForOAuthCallback s ms st)) ! length (promises st) = Pending \<and>
         length (promises (snd (waitForOAuthCallback s ms st))) = Suc (length (promises st))"
  using assms
  by (simp add: waitForOAuthCallback_def Let_def reject_nth reject_length nth_append
      flow_reject_def clearTimeout_def settle_def)

lemma handle_match:
  assumes "pendingOAuth st = Some \<lparr>flow = k, expected = s\<rparr>" "k < length (promises st)" "promises st ! k = Pending"
    and "matching_callback c s u"
  shows "fst (handleRequest (Some u) st) = \<lparr>status = 200, body = SUCCESS_HTML\<rparr> \<and>
         pendingOAuth (snd (handleRequest (Some u) st)) = None \<and>
         promises (snd (handleRequest (Some u) st)) ! k = Resolved \<lparr>code = c, state = s\<rparr>"
  using assms
  by (simp add: handleRequest_def Let_def matching_callback_def truthy_def resolve_nth)

text \<open>
  Claim C2. In every reachable state at most one flow is live. When
  \<open>waitForOAuthCallback\<close> is called while a flow is pending, the promise of the earlier flow
  (unsettled until then) is rejected with \<open>New OAuth flow started\<close>, the new flow is the only
  live one, and a callback carrying the new state resolves the new promise with its code and
  state.
\<close>

theorem new_flow_supersedes:
  "length (live_flows (run evs initial)) \<le> 1 \<and>
   (pendingOAuth (run evs initial) = Some p \<and> matching_callback c s u \<longrightarrow>
      (let st = run evs initial;
           (k, st') = waitForOAuthCallback s ms st;
           (r, st'') = handleRequest (Some u) st'
       in promises st ! flow p = Pending \<and>
          promises st' ! flow p = Rejected ''New OAuth flow started'' \<and>
          pendingOAuth st' = Some \<lparr>flow = k, expected = s\<rparr> \<and>
          live_flows st' = [k] \<and>
          r = \<lparr>status = 200, body = SUCCESS_HTML\<rparr> \<and>
          promises st'' ! k = Resolved \<lparr>code = c, state = s\<rparr> \<and>
          promises st'' ! flow p = Rejected ''New OAuth flow started'' \<and>
          pendingOAuth st'' = None \<and>
          live_flows st'' = []))"
proof (intro conjI impI)
  show "length (live_flows (run evs initial)) \<le> 1"
    by (simp add: live_reachable split: option.splits)
next
  assume a: "pendingOAuth (run evs initial) = Some p \<and> matching_callback c s u"
  define st where "st = run evs initial"
  define k where "k = fst (waitForOAuthCallback s ms st)"
  define st' where "st' = snd (waitForOAuthCallback s ms st)"
  define r where "r = fst (handleRequest (Some u) st')"
  define st'' where "st'' = snd (handleRequest (Some u) st')"
  from a have p: "pendingOAuth st = Some p" and cb: "matching_callback c s u" by (simp_all add: st_def)
  from pending_is_live[of evs p] p
  have live: "flow p < length (promises st)" "promises st ! flow p = Pending" by (simp_all add: st_def)
  from wait_effect[OF p live, of s ms]
  have w: "k = length (promises st)" "pendingOAuth st' = Some \<lparr>flow = k, expected = s\<rparr>"
    "promises st' ! flow p = Rejected ''New OAuth flow started''"
    "promises st' ! k = Pending" "length (promises st') = Suc (length (promises st))"
    by (simp_all add: k_def st'_def)
  have st'_run: "st' = run (evs @ [Wait s ms]) initial"
    by (simp add: st'_def st_def run_def)
  have l1: "live_flows st' = [k]"
    using live_reachable[of "evs @ [Wait s ms]"] w(2) by (simp add: st'_run[symmetric])
  have klt: "k < length (promises st')" using w by simp
  from handle_match[OF w(2) klt w(4) cb]
  have h: "r = \<lparr>status = 200, body = SUCCESS_HTML\<rparr>" "pendingOAuth st'' = None"
    "promises st'' ! k = Resolved \<lparr>code = c, state = s\<rparr>"
    by (simp_all add: r_def st''_def)
  have st''_run: "st'' = run (evs @ [Wait s ms, Request (Some u)]) initial"
    by (simp add: st''_def st'_def st_def run_def)
  have l2: "live_flows st'' = []"
    using live_reachable[of "evs @ [Wait s ms, Request (Some u)]"] h(2) by (simp add: st''_run[symmetric])
  have "flow p < length (promises st')" using live w by simp
  from step_settled[OF this, of "Request (Some u)"] w(3)
  have old: "promises st'' ! flow p = Rejected ''New OAuth flow started''"
    by (simp add: st''_def)
  from live w l1 h l2 old
  show "let st = run evs initial;
           (k, st') = waitForOAuthCallback s ms st;
           (r, st'') = handleRequest (Some u) st'
       in promises st ! flow p = Pending \<and>
          promises st' ! flow p = Rejected ''New OAuth flow started'' \<and>
          pendingOAuth st' = Some \<lparr>flow = k, expected = s\<rparr> \<and>
          live_flows st' = [k] \<and>
          r = \<lparr>status = 200, body = SUCCESS_HTML\<rparr> \<and>
          promises st'' ! k = Resolved \<lparr>code = c, state = s\<rparr> \<and>
          promises st'' ! flow p = Rejected ''New OAuth flow started'' \<and>
          pendingOAuth st'' = None \<and>
          live_flows st'' = []"
    by (simp add: Let_def split_beta st_def[symmetric] k_def[symmetric] st'_def[symmetric]
        r_def[symmetric] st''_def[symmetric])
qed

lemma ev1: "run [Start True, Wait ''first'' 300000] initial =
   \<lparr>server = True, pendingOAuth = Some \<lparr>flow = 0, expected = ''first''\<rparr>, promises = [Pending], timers = [(0, 300000)]\<rparr>"
  by (simp add: run_def initial_def startOAuthServer_def waitForOAuthCallback_def Let_def)

theorem new_flow_supersedes_witness:
  "pendingOAuth (run [Start True, Wait ''first'' 300000] initial) = Some \<lparr>flow = 0, expected = ''first''\<rparr> \<and>
   matching_callback ''abc123'' ''second''
     \<lparr>pathname = ''/oauth-callback'', searchParams = [(''code'', ''abc123''), (''state'', ''second'')]\<rparr> \<and>
   promises (snd (handleRequest
       (Some \<lparr>pathname = ''/oauth-callback'', searchParams = [(''code'', ''abc123''), (''state'', ''second'')]\<rparr>)
       (snd (waitForOAuthCallback ''second'' 300000 (run [Start True, Wait ''first'' 300000] initial)))))
     = [Rejected ''New OAuth flow started'', Resolved \<lparr>code = ''abc123'', state = ''second''\<rparr>]"
  using new_flow_supersedes[of "[Start True, Wait ''first'' 300000]" "\<lparr>flow = 0, expected = ''first''\<rparr>"
      "''abc123''" "''second''"
      "\<lparr>pathname = ''/oauth-callback'', searchParams = [(''code'', ''abc123''), (''state'', ''second'')]\<rparr>" 300000]
  by (simp add: run_def initial_def startOAuthServer_def waitForOAuthCallback_def Let_def
      matching_callback_def get_param_def truthy_def handleRequest_def flow_reject_def flow_resolve_def
      clearTimeout_def settle_def)

theorem state_mismatch_rejects_witness:
  "pendingOAuth (run [Wait ''good'' 300000] initial) = Some \<lparr>flow = 0, expected = ''good''\<rparr> \<and>
   promises (snd (handleRequest
       (Some \<lparr>pathname = ''/oauth-callback'', searchParams = [(''code'', ''abc''), (''state'', ''evil'')]\<rparr>)
       (run [Wait ''good'' 300000] initial))) ! 0 = Rejected ''State mismatch'' \<and>
   promises (run [Request (Some \<lparr>pathname = ''/oauth-callback'', searchParams = [(''code'', ''abc''), (''state'', ''good'')]\<rparr>)]
     (snd (handleRequest
       (Some \<lparr>pathname = ''/oauth-callback'', searchParams = [(''code'', ''abc''), (''state'', ''evil'')]\<rparr>)
       (run [Wait ''good'' 300000] initial)))) ! 0 = Rejected ''State mismatch''"
  using state_mismatch_rejects[of "run [Wait ''good'' 300000] initial" "[Wait ''good'' 300000]"
      "\<lparr>flow = 0, expected = ''good''\<rparr>"
      "\<lparr>pathname = ''/oauth-callback'', searchParams = [(''code'', ''abc''), (''state'', ''evil'')]\<rparr>"
      "''abc''" "''evil''"
      "fst (handleRequest
       (Some \<lparr>pathname = ''/oauth-callback'', searchParams = [(''code'', ''abc''), (''state'', ''evil'')]\<rparr>)
       (run [Wait ''good'' 300000] initial))"
      "snd (handleRequest
       (Some \<lparr>pathname = ''/oauth-callback'', searchParams = [(''code'', ''abc''), (''state'', ''evil'')]\<rparr>)
       (run [Wait ''good'' 300000] initial))"]
  by (simp add: run_def initial_def waitForOAuthCallback_def Let_def
      get_param_def truthy_def handleRequest_def flow_reject_def flow_resolve_def
      clearTimeout_def settle_def rejection_reason_def)

text \<open>
  Claim C1 as stated fails when the request also carries an \<open>error\<close> parameter: the error
  check runs first, and the flow is rejected with the provider's error.
\<close>

theorem state_mismatch_counterexample:
  "promises (snd (handleRequest
       (Some \<lparr>pathname = ''/oauth-callback'',
              searchParams = [(''error'', ''access_denied''), (''code'', ''abc''), (''state'', ''evil'')]\<rparr>)
       (run [Wait ''good'' 300000] initial))) ! 0 = Rejected ''OAuth error: access_denied''"
  by (simp add: run_def initial_def waitForOAuthCallback_def Let_def
      get_param_def truthy_def handleRequest_def flow_reject_def clearTimeout_def settle_def)

section \<open>Properties of the challenge codec\<close>

lemma r1: "(y::nat) < 256 \<Longrightarrow> (x div 4) * 4 + ((x mod 4) * 16 + y div 16) div 16 = x"
  by (simp add: div_mult_self3 less_mult_imp_div_less)

lemma r2: "(y::nat) < 256 \<Longrightarrow> z < 256 \<Longrightarrow>
    (((x mod 4) * 16 + y div 16) mod 16) * 16 + ((y mod 16) * 4 + z div 64) div 4 = y"
proof -
  assume a: "y < 256" "z < 256"
  have "y div 16 < 16" using a by (simp add: less_mult_imp_div_less)
  then have 1: "((x mod 4) * 16 + y div 16) mod 16 = y div 16" by simp
  have "z div 64 < 4" using a by (simp add: less_mult_imp_div_less)
  then have 2: "((y mod 16) * 4 + z div 64) div 4 = y mod 16" by simp
  show ?thesis unfolding 1 2 by simp
qed

lemma r3: "(z::nat) < 256 \<Longrightarrow> (((y mod 16) * 4 + z div 64) mod 4) * 64 + z mod 64 = z"
proof -
  assume a: "z < 256"
  have "z div 64 < 4" using a by (simp add: less_mult_imp_div_less)
  then have 1: "((y mod 16) * 4 + z div 64) mod 4 = z div 64" by simp
  show ?thesis unfolding 1 by simp
qed

lemma r4: "(y::nat) < 256 \<Longrightarrow> (((x mod 4) * 16 + y div 16) mod 16) * 16 + ((y mod 16) * 4) div 4 = y"
proof -
  assume a: "y < 256"
  have "y div 16 < 16" using a by (simp add: less_mult_imp_div_less)
  then have 1: "((x mod 4) * 16 + y div 16) mod 16 = y div 16" by simp
  show ?thesis unfolding 1 by simp
qed

lemma r5: "((x::nat) div 4) * 4 + ((x mod 4) * 16) div 16 = x"
  by simp

lemma b1: "(x::nat) < 256 \<Longrightarrow> x div 4 < 64" by (simp add: less_mult_imp_div_less)
lemma b2: "(y::nat) < 256 \<Longrightarrow> (x mod 4) * 16 + y div 16 < 64"
proof -
  assume "y < 256" then have "y div 16 < 16" by (simp add: less_mult_imp_div_less)
  moreover have "x mod 4 < 4" by simp
  ultimately show ?thesis by linarith
qed
lemma b3: "(z::nat) < 256 \<Longrightarrow> (y mod 16) * 4 + z div 64 < 64"
proof -
  assume "z < 256" then have "z div 64 < 4" by (simp add: less_mult_imp_div_less)
  moreover have "y mod 16 < 16" by simp
  ultimately show ?thesis by linarith
qed
lemma b4: "((y::nat) mod 16) * 4 < 64"
proof -
  have "y mod 16 < 16" by simp then show ?thesis by linarith
qed
lemma b5: "((y::nat) mod 4) * 16 < 64"
proof -
  have "y mod 4 < 4" by simp then show ?thesis by linarith
qed

lemma sextets_lt: "n \<in> set (sextets bs) \<Longrightarrow> n < 64"
proof (induction bs arbitrary: n rule: sextets.induct)
  case (1 a b c rest)
  have "(of_char a :: nat) < 256" "(of_char b :: nat) < 256" "(of_char c :: nat) < 256" by simp_all
  with 1 b1 b2 b3 show ?case by auto
next
  case (2 a b)
  have "(of_char a :: nat) < 256" "(of_char b :: nat) < 256" by simp_all
  with 2 b1 b2 b4 show ?case by auto
next
  case (3 a)
  have "(of_char a :: nat) < 256" by simp
  with 3 b1 b5 show ?case by auto
next
  case 4
  then show ?case by simp
qed

lemma bytes_of_sextets_sextets: "bytes_of_sextets (sextets bs) = bs"
proof (induction bs rule: sextets.induct)
  case (1 a b c rest)
  have l: "(of_char b :: nat) < 256" "(of_char c :: nat) < 256" by simp_all
  show ?case using 1 r1[OF l(1), of "of_char a"] r2[OF l, of "of_char a"] r3[OF l(2), of "of_char b"]
    by simp
next
  case (2 a b)
  have l: "(of_char b :: nat) < 256" by simp
  show ?case using r1[OF l, of "of_char a"] r4[OF l, of "of_char a"] by simp
next
  case (3 a)
  show ?case using r5[of "of_char a"] by simp
next
  case 4
  then show ?case by simp
qed

lemma length_sextets: "length bs \<le> length (sextets bs)"
  by (induction bs rule: sextets.induct) simp_all

lemma replace_all_single: "replace_all c [r] s = map (\<lambda>x. if x = c then r else x) s"
  by (induction s) (simp_all add: replace_all_def)

lemma replace_all_none: "replace_all c [] s = filter (\<lambda>x. x \<noteq> c) s"
  by (induction s) (simp_all add: replace_all_def)

lemma alphabet_table:
  "\<forall>n\<in>set [0..<64].
     b64_value (b64_alphabet ! n) = Some n \<and>
     b64_value (b64url_alphabet ! n) = Some n \<and>
     b64_alphabet ! n \<noteq> CHR ''='' \<and>
     (if (if b64url_alphabet ! n = CHR ''-'' then CHR ''+'' else b64url_alphabet ! n) = CHR ''_''
      then CHR ''/'' else (if b64url_alphabet ! n = CHR ''-'' then CHR ''+'' else b64url_alphabet ! n))
       = b64_alphabet ! n \<and>
     (if (if b64_alphabet ! n = CHR ''+'' then CHR ''-'' else b64_alphabet ! n) = CHR ''/''
      then CHR ''_'' else (if b64_alphabet ! n = CHR ''+'' then CHR ''-'' else b64_alphabet ! n))
       = b64url_alphabet ! n \<and>
     b64url_alphabet ! n \<noteq> CHR ''=''"
  by code_simp

lemma alphabet_facts:
  assumes "n < 64"
  shows "b64_value (b64_alphabet ! n) = Some n"
    and "b64_alphabet ! n \<noteq> CHR ''=''"
    and "b64url_alphabet ! n \<noteq> CHR ''=''"
    and "(if (if b64url_alphabet ! n = CHR ''-'' then CHR ''+'' else b64url_alphabet ! n) = CHR ''_''
      then CHR ''/'' else (if b64url_alphabet ! n = CHR ''-'' then CHR ''+'' else b64url_alphabet ! n))
       = b64_alphabet ! n"
    and "(if (if b64_alphabet ! n = CHR ''+'' then CHR ''-'' else b64_alphabet ! n) = CHR ''/''
      then CHR ''_'' else (if b64_alphabet ! n = CHR ''+'' then CHR ''-'' else b64_alphabet ! n))
       = b64url_alphabet ! n"
proof -
  from assms have "n \<in> set [0..<64]" by simp
  with alphabet_table show
    "b64_value (b64_alphabet ! n) = Some n"
    "b64_alphabet ! n \<noteq> CHR ''=''"
    "b64url_alphabet ! n \<noteq> CHR ''=''"
    "(if (if b64url_alphabet ! n = CHR ''-'' then CHR ''+'' else b64url_alphabet ! n) = CHR ''_''
      then CHR ''/'' else (if b64url_alphabet ! n = CHR ''-'' then CHR ''+'' else b64url_alphabet ! n))
       = b64_alphabet ! n"
    "(if (if b64_alphabet ! n = CHR ''+'' then CHR ''-'' else b64_alphabet ! n) = CHR ''/''
      then CHR ''_'' else (if b64_alphabet ! n = CHR ''+'' then CHR ''-'' else b64_alphabet ! n))
       = b64url_alphabet ! n"
    by blast+
qed

text \<open>The replacements of \<open>generatePKCE\<close> turn standard base64 into unpadded base64url.\<close>

lemma base64_to_url_toString_base64: "base64_to_url (toString_base64 buf) = toString_base64url buf"
proof -
  have "\<forall>n\<in>set ns. n < 64 \<Longrightarrow>
        filter (\<lambda>x. x \<noteq> CHR ''='')
          (map (\<lambda>x. if x = CHR ''/'' then CHR ''_'' else x)
            (map (\<lambda>x. if x = CHR ''+'' then CHR ''-'' else x)
              (map (\<lambda>n. b64_alphabet ! n) ns))) = map (\<lambda>n. b64url_alphabet ! n) ns" for ns
  proof (induction ns)
    case Nil
    then show ?case by simp
  next
    case (Cons n ns)
    then have n: "n < 64" by simp
    from Cons alphabet_facts(3,5)[OF n] show ?case by simp
  qed
  then show ?thesis
    using sextets_lt[of _ buf]
    by (simp add: base64_to_url_def toString_base64_def toString_base64url_def
        replace_all_single replace_all_none)
qed

lemma map_filter_app: "List.map_filter f (xs @ ys) = List.map_filter f xs @ List.map_filter f ys"
  by (simp add: List.map_filter_def)

text \<open>What \<open>decodeState\<close> does before parsing undoes \<open>toString('base64url')\<close>.\<close>

lemma takeWhile_before_padding:
  "\<forall>x\<in>set xs. x \<noteq> e \<Longrightarrow> takeWhile (\<lambda>c. c \<noteq> e) (xs @ replicate k e) = xs"
proof (induction xs)
  case Nil
  then show ?case by (cases k) simp_all
next
  case (Cons x xs)
  then show ?case by simp
qed

lemma from_base64_padded:
  "from_base64
     (replace_all (CHR ''_'') ''/'' (replace_all (CHR ''-'') ''+'' (toString_base64url buf))
        @ replicate k (CHR ''='')) = buf"
proof -
  have norm: "\<forall>n\<in>set ns. n < 64 \<Longrightarrow>
        map (\<lambda>x. if x = CHR ''_'' then CHR ''/'' else x)
          (map (\<lambda>x. if x = CHR ''-'' then CHR ''+'' else x)
            (map (\<lambda>n. b64url_alphabet ! n) ns)) = map (\<lambda>n. b64_alphabet ! n) ns" for ns
  proof (induction ns)
    case Nil
    then show ?case by simp
  next
    case (Cons n ns)
    then have n: "n < 64" by simp
    from Cons alphabet_facts(4)[OF n] show ?case by simp
  qed
  have vals: "\<forall>n\<in>set ns. n < 64 \<Longrightarrow>
        List.map_filter b64_value (map (\<lambda>n. b64_alphabet ! n) ns) = ns" for ns
  proof (induction ns)
    case Nil
    then show ?case by (simp add: List.map_filter_simps)
  next
    case (Cons n ns)
    then have n: "n < 64" by simp
    from Cons alphabet_facts(1)[OF n] show ?case by (simp add: List.map_filter_simps)
  qed
  have data: "\<forall>n\<in>set ns. n < 64 \<Longrightarrow>
        \<forall>c\<in>set (map (\<lambda>n. b64_alphabet ! n) ns). c \<noteq> CHR ''=''" for ns
    using alphabet_facts(2) by auto
  have lt: "\<forall>n\<in>set (sextets buf). n < 64" using sextets_lt[of _ buf] by blast
  have "takeWhile (\<lambda>c. c \<noteq> CHR ''='')
          (map (\<lambda>n. b64_alphabet ! n) (sextets buf) @ replicate k (CHR ''='')) =
        map (\<lambda>n. b64_alphabet ! n) (sextets buf)"
    using data[OF lt] by (rule takeWhile_before_padding)
  then have tw: "from_base64 (map (\<lambda>n. b64_alphabet ! n) (sextets buf) @ replicate k (CHR ''='')) =
      bytes_of_sextets (List.map_filter b64_value (map (\<lambda>n. b64_alphabet ! n) (sextets buf)))"
    by (simp only: from_base64_def)
  have e: "replace_all (CHR ''_'') ''/'' (replace_all (CHR ''-'') ''+'' (toString_base64url buf)) =
      map (\<lambda>n. b64_alphabet ! n) (sextets buf)"
    by (simp only: toString_base64url_def replace_all_single norm[OF lt])
  show ?thesis
    by (simp only: e tw vals[OF lt] bytes_of_sextets_sextets)
qed

lemma hex_value_table: "\<forall>d\<in>set [0..<16]. hex_value (hex_digit d) = Some d"
  by code_simp

lemma hex_value_digit: "d < 16 \<Longrightarrow> hex_value (hex_digit d) = Some d"
  using hex_value_table by simp

lemma hex4_escape:
  assumes "n < 32"
  shows "hex4 (CHR ''0'') (CHR ''0'') (hex_digit (n div 16)) (hex_digit (n mod 16)) = Some n"
proof -
  have z: "hex_value (CHR ''0'') = Some 0" by (simp add: hex_value_def)
  have a: "hex_value (hex_digit (n div 16)) = Some (n div 16)"
    using assms by (intro hex_value_digit) simp
  have b: "hex_value (hex_digit (n mod 16)) = Some (n mod 16)"
    by (intro hex_value_digit) simp
  show ?thesis by (simp add: hex4_def z a b)
qed

lemma utf8_of_code_ascii: "(of_char c :: nat) < 128 \<Longrightarrow> utf8_of_code (of_char c) = [c]"
  by (simp add: utf8_of_code_def)

lemma prepend_Some: "prepend bs (Some (t, r)) = Some (bs @ t, r)"
  by (simp add: prepend_def)

lemma parse_chars_u:
  assumes "hex4 h1 h2 h3 h4 = Some hi" "hi < 55296"
  shows "parse_chars (backslash # CHR ''u'' # h1 # h2 # h3 # h4 # rest) =
           prepend (utf8_of_code hi) (parse_chars rest)"
proof -
  have ne: "backslash \<noteq> dquote" by (simp add: backslash_def dquote_def)
  have np: "\<not> surrogate_pair hi b u lo" for b u lo
    using assms(2) by (simp add: surrogate_pair_def)
  have six: "(case rest of
      b # u # l1 # l2 # l3 # l4 # rest3 \<Rightarrow>
        if surrogate_pair hi b u (hex4 l1 l2 l3 l4)
        then prepend (utf8_of_code (65536 + (hi - 55296) * 1024 + (the (hex4 l1 l2 l3 l4) - 56320)))
               (parse_chars rest3)
        else prepend (utf8_of_code hi) (parse_chars rest)
    | _ \<Rightarrow> prepend (utf8_of_code hi) (parse_chars rest)) = prepend (utf8_of_code hi) (parse_chars rest)"
    by (simp add: np del: parse_chars.simps split: list.splits)
  show ?thesis
    apply (subst parse_chars.simps(2))
    apply (simp only: ne if_False if_True list.case assms(1) option.case refl six)
    done
qed

lemma parse_chars_simple:
  assumes "simple_escape e = Some x" "e \<noteq> CHR ''u''"
  shows "parse_chars (backslash # e # rest) = prepend [x] (parse_chars rest)"
proof -
  have ne: "backslash \<noteq> dquote" by (simp add: backslash_def dquote_def)
  show ?thesis using assms ne by simp
qed

lemma parse_chars_plain:
  assumes "c \<noteq> dquote" "c \<noteq> backslash" "\<not> (of_char c :: nat) < 32"
  shows "parse_chars (c # rest) = prepend [c] (parse_chars rest)"
  using assms by simp

lemma parse_chars_escape_char:
  "parse_chars (escape_char c @ rest) = prepend [c] (parse_chars rest)"
proof -
  consider (dq) "c = dquote" | (bs) "c = backslash" | (b) "c = CHR 0x08" | (f) "c = CHR 0x0C"
    | (n) "c = CHR 0x0A" | (r) "c = CHR 0x0D" | (t) "c = CHR 0x09"
    | (ctl) "c \<noteq> dquote" "c \<noteq> backslash" "c \<noteq> CHR 0x08" "c \<noteq> CHR 0x0C" "c \<noteq> CHR 0x0A"
        "c \<noteq> CHR 0x0D" "c \<noteq> CHR 0x09" "(of_char c :: nat) < 32"
    | (plain) "c \<noteq> dquote" "c \<noteq> backslash" "c \<noteq> CHR 0x08" "c \<noteq> CHR 0x0C" "c \<noteq> CHR 0x0A"
        "c \<noteq> CHR 0x0D" "c \<noteq> CHR 0x09" "\<not> (of_char c :: nat) < 32"
    by blast
  then show ?thesis
  proof cases
    case dq
    have "simple_escape dquote = Some dquote" "dquote \<noteq> CHR ''u''"
      by (simp_all add: simple_escape_def dquote_def)
    from parse_chars_simple[OF this] dq show ?thesis by (simp add: escape_char_def)
  next
    case bs
    have "simple_escape backslash = Some backslash" "backslash \<noteq> CHR ''u''"
      by (simp_all add: simple_escape_def dquote_def backslash_def)
    from parse_chars_simple[OF this] bs show ?thesis
      by (simp add: escape_char_def dquote_def backslash_def)
  next
    case b
    have "simple_escape (CHR ''b'') = Some (CHR 0x08)" "CHR ''b'' \<noteq> CHR ''u''"
      by (simp_all add: simple_escape_def dquote_def backslash_def)
    from parse_chars_simple[OF this] b show ?thesis
      by (simp add: escape_char_def dquote_def backslash_def)
  next
    case f
    have "simple_escape (CHR ''f'') = Some (CHR 0x0C)" "CHR ''f'' \<noteq> CHR ''u''"
      by (simp_all add: simple_escape_def dquote_def backslash_def)
    from parse_chars_simple[OF this] f show ?thesis
      by (simp add: escape_char_def dquote_def backslash_def)
  next
    case n
    have "simple_escape (CHR ''n'') = Some (CHR 0x0A)" "CHR ''n'' \<noteq> CHR ''u''"
      by (simp_all add: simple_escape_def dquote_def backslash_def)
    from parse_chars_simple[OF this] n show ?thesis
      by (simp add: escape_char_def dquote_def backslash_def)
  next
    case r
    have "simple_escape (CHR ''r'') = Some (CHR 0x0D)" "CHR ''r'' \<noteq> CHR ''u''"
      by (simp_all add: simple_escape_def dquote_def backslash_def)
    from parse_chars_simple[OF this] r show ?thesis
      by (simp add: escape_char_def dquote_def backslash_def)
  next
    case t
    have "simple_escape (CHR ''t'') = Some (CHR 0x09)" "CHR ''t'' \<noteq> CHR ''u''"
      by (simp_all add: simple_escape_def dquote_def backslash_def)
    from parse_chars_simple[OF this] t show ?thesis
      by (simp add: escape_char_def dquote_def backslash_def)
  next
    case ctl
    have h: "hex4 (CHR ''0'') (CHR ''0'') (hex_digit (of_char c div 16)) (hex_digit (of_char c mod 16))
             = Some (of_char c)"
      using ctl(8) by (rule hex4_escape)
    have lt: "(of_char c :: nat) < 55296" using ctl(8) by simp
    have e: "escape_char c = [backslash, CHR ''u'', CHR ''0'', CHR ''0'',
              hex_digit (of_char c div 16), hex_digit (of_char c mod 16)]"
      using ctl by (simp add: escape_char_def)
    have u: "utf8_of_code (of_char c) = [c]" using ctl(8) by (simp add: utf8_of_code_ascii)
    show ?thesis unfolding e using parse_chars_u[OF h lt, of rest] u by simp
  next
    case plain
    then have e: "escape_char c = [c]" by (simp add: escape_char_def)
    show ?thesis unfolding e using parse_chars_plain[OF plain(1,2,8), of rest] by simp
  qed
qed

lemma parse_chars_quote:
  "parse_chars (concat (map escape_char s) @ dquote # rest) = Some (s, rest)"
proof (induction s)
  case Nil
  then show ?case by simp
next
  case (Cons c s)
  have "parse_chars (concat (map escape_char (c # s)) @ dquote # rest) =
        parse_chars (escape_char c @ (concat (map escape_char s) @ dquote # rest))" by simp
  also have "\<dots> = prepend [c] (parse_chars (concat (map escape_char s) @ dquote # rest))"
    by (rule parse_chars_escape_char)
  also have "\<dots> = Some (c # s, rest)" using Cons.IH by (simp add: prepend_Some)
  finally show ?case .
qed

lemma skip_ws_nonws: "\<not> is_ws c \<Longrightarrow> skip_ws (c # r) = c # r"
  by (simp add: skip_ws_def)

lemma not_ws:
  "\<not> is_ws dquote" "\<not> is_ws (CHR ''{'')" "\<not> is_ws (CHR ''}'')" "\<not> is_ws (CHR '':'')" "\<not> is_ws (CHR '','')"
  by (simp_all add: is_ws_def dquote_def)

lemma parse_value_string:
  "parse_value (Suc n) (quote v @ rest) = Some (JString v, rest)"
proof -
  have d: "dquote \<noteq> CHR ''{''" "dquote \<noteq> CHR ''[''" by (simp_all add: dquote_def)
  have "parse_value (Suc n) (dquote # concat (map escape_char v) @ dquote # rest) =
        map_option (\<lambda>p. (JString (fst p), snd p))
          (parse_chars (concat (map escape_char v) @ dquote # rest))"
    by (simp add: skip_ws_nonws not_ws d del: parse_chars.simps)
  then show ?thesis by (simp add: quote_def parse_chars_quote del: parse_chars.simps)
qed

lemma parse_members_string:
  "parse_members (Suc (Suc n)) acc (quote k @ CHR '':'' # quote v @ d # rest) =
     (if d = CHR '','' then parse_members (Suc n) (acc @ [(k, JString v)]) rest
      else if d = CHR ''}'' then Some (JObject (acc @ [(k, JString v)]), rest)
      else if is_ws d then
        (case skip_ws rest of
           [] \<Rightarrow> None
         | d' # rest4 \<Rightarrow>
             if d' = CHR '','' then parse_members (Suc n) (acc @ [(k, JString v)]) rest4
             else if d' = CHR ''}'' then Some (JObject (acc @ [(k, JString v)]), rest4)
             else None)
      else None)"
proof -
  have q: "quote k @ CHR '':'' # quote v @ d # rest =
           dquote # (concat (map escape_char k) @ dquote # (CHR '':'' # quote v @ d # rest))"
    by (simp add: quote_def)
  have v: "parse_value (Suc n) (quote v @ d # rest) = Some (JString v, d # rest)"
    by (rule parse_value_string)
  have w: "d = CHR '','' \<or> d = CHR ''}'' \<Longrightarrow> skip_ws (d # rest) = d # rest"
    by (auto simp: skip_ws_nonws not_ws)
  have w2: "is_ws d \<Longrightarrow> skip_ws (d # rest) = skip_ws rest"
    by (simp add: skip_ws_def)
  have w3: "\<not> is_ws d \<Longrightarrow> skip_ws (d # rest) = d # rest"
    by (simp add: skip_ws_def)
  have nw: "is_ws d \<Longrightarrow> d \<noteq> CHR '','' \<and> d \<noteq> CHR ''}''"
    by (auto simp: is_ws_def)
  show ?thesis
    unfolding q
    apply (subst parse_members.simps(2))
    apply (simp only: skip_ws_nonws[OF not_ws(1)] list.case parse_chars_quote option.case prod.case
        skip_ws_nonws[OF not_ws(4)] refl if_False if_True not_False_eq_True not_not v)
    apply (cases "is_ws d")
     apply (simp add: w2 nw del: parse_chars.simps parse_members.simps parse_value.simps)
    apply (simp add: w3 del: parse_chars.simps parse_members.simps parse_value.simps)
    done
qed

lemma quote_cons: "quote k @ x = dquote # (concat (map escape_char k) @ dquote # x)"
  by (simp add: quote_def)

lemma stringify_state_object:
  "JSON_stringify (JObject [(k1, JString v1), (k2, JString v2)]) @ rest =
     CHR ''{'' # (quote k1 @ CHR '':'' # quote v1 @ CHR '','' #
                  (quote k2 @ CHR '':'' # quote v2 @ CHR ''}'' # rest))"
  by simp

lemma parse_value_object_start:
  "parse_value (Suc n) (CHR ''{'' # dquote # x) = parse_members n [] (dquote # x)"
proof -
  have ne: "dquote \<noteq> CHR ''}''" by (simp add: dquote_def)
  show ?thesis
    apply (subst parse_value.simps(2))
    apply (simp only: skip_ws_nonws[OF not_ws(2)] skip_ws_nonws[OF not_ws(1)] list.case refl if_True
        ne if_False)
    done
qed

lemma parse_value_state_object:
  "parse_value (Suc (Suc (Suc (Suc n))))
     (JSON_stringify (JObject [(k1, JString v1), (k2, JString v2)]) @ rest) =
   Some (JObject [(k1, JString v1), (k2, JString v2)], rest)"
proof -
  have c: "(CHR ''}'' = CHR '','') = False" by simp
  have m2: "parse_members (Suc (Suc n)) [(k1, JString v1)] (quote k2 @ CHR '':'' # quote v2 @ CHR ''}'' # rest)
           = Some (JObject [(k1, JString v1), (k2, JString v2)], rest)"
    by (simp add: parse_members_string
        del: parse_members.simps parse_value.simps parse_chars.simps parse_elements.simps)
  have m1: "parse_members (Suc (Suc (Suc n))) []
             (quote k1 @ CHR '':'' # quote v1 @ CHR '','' #
                        (quote k2 @ CHR '':'' # quote v2 @ CHR ''}'' # rest))
           = Some (JObject [(k1, JString v1), (k2, JString v2)], rest)"
    by (simp add: parse_members_string
        del: parse_members.simps parse_value.simps parse_chars.simps parse_elements.simps)
  have "parse_value (Suc (Suc (Suc (Suc n))))
          (CHR ''{'' # dquote # (concat (map escape_char k1) @ dquote #
             (CHR '':'' # quote v1 @ CHR '','' # (quote k2 @ CHR '':'' # quote v2 @ CHR ''}'' # rest)))) =
        parse_members (Suc (Suc (Suc n))) []
          (dquote # (concat (map escape_char k1) @ dquote #
             (CHR '':'' # quote v1 @ CHR '','' # (quote k2 @ CHR '':'' # quote v2 @ CHR ''}'' # rest))))"
    by (rule parse_value_object_start)
  then show ?thesis
    by (simp only: stringify_state_object quote_cons[symmetric] m1)
qed

lemma JSON_parse_state_object:
  "JSON_parse (JSON_stringify (JObject [(k1, JString v1), (k2, JString v2)])) =
     Inr (JObject [(k1, JString v1), (k2, JString v2)])"
proof -
  define t where "t = JSON_stringify (JObject [(k1, JString v1), (k2, JString v2)])"
  have "3 \<le> length t" by (simp add: t_def quote_def)
  then obtain n where "length t = 3 + n" by (auto simp: le_iff_add)
  then have n: "Suc (length t) = Suc (Suc (Suc (Suc n)))" by simp
  have "parse_value (Suc (Suc (Suc (Suc n)))) (t @ []) =
          Some (JObject [(k1, JString v1), (k2, JString v2)], [])"
    unfolding t_def by (rule parse_value_state_object)
  then have "parse_value (Suc (length t)) t = Some (JObject [(k1, JString v1), (k2, JString v2)], [])"
    by (simp only: n append_Nil2)
  then have "JSON_parse t = Inr (JObject [(k1, JString v1), (k2, JString v2)])"
    by (simp only: JSON_parse_def option.case prod.case skip_ws_def dropWhile.simps refl if_True)
  then show ?thesis by (simp only: t_def)
qed

lemma decodeState_encodeState_id:
  "decodeState (encodeState \<lparr>state_verifier = v, state_projectId = h\<rparr>) =
     Inr \<lparr>state_verifier = v, state_projectId = h\<rparr>"
proof -
  define obj where "obj = JObject [(''verifier'', JString v), (''projectId'', JString h)]"
  define t where "t = JSON_stringify obj"
  have e: "encodeState \<lparr>state_verifier = v, state_projectId = h\<rparr> = toString_base64url t"
    by (simp add: encodeState_def t_def obj_def del: JSON_stringify.simps)
  have b: "from_base64
     (replace_all (CHR ''_'') ''/'' (replace_all (CHR ''-'') ''+'' (toString_base64url t))
        @ replicate k (CHR ''='')) = t" for k
    by (rule from_base64_padded)
  have p: "JSON_parse t = Inr obj" unfolding t_def obj_def by (rule JSON_parse_state_object)
  have n: "obj \<noteq> JNull" by (simp add: obj_def)
  have v: "property obj ''verifier'' = Some (JString v)"
    and h: "property obj ''projectId'' = Some (JString h)"
    by (simp_all add: property_def obj_def)
  show ?thesis
    unfolding e decodeState_def Let_def b p
    by (simp add: n v h)
qed

text \<open>
  Claim C7. Decoding an encoded flow state gives back the verifier and the hint, for every
  verifier and every hint, the empty hint included.
\<close>

theorem decodeState_encodeState:
  "decodeState (encodeState \<lparr>state_verifier = v, state_projectId = h\<rparr>) =
     Inr \<lparr>state_verifier = v, state_projectId = h\<rparr>"
  by (rule decodeState_encodeState_id)

lemma toString_base64url_chars: "set (toString_base64url buf) \<subseteq> set b64url_alphabet"
proof
  fix c assume "c \<in> set (toString_base64url buf)"
  then obtain n where n: "n \<in> set (sextets buf)" and c: "c = b64url_alphabet ! n"
    by (auto simp: toString_base64url_def)
  have "length b64url_alphabet = 64" by (simp add: b64url_alphabet_def)
  with sextets_lt[OF n] c show "c \<in> set b64url_alphabet" by simp
qed

lemma length_toString_base64url: "length buf \<le> length (toString_base64url buf)"
  by (simp add: toString_base64url_def length_sextets)

text \<open>
  Claim C8. Whenever the random source delivers the 64 bytes it is asked for, the verifier of
  \<open>generatePKCE\<close> has exactly 64 characters, all of the URL-safe base64 alphabet, and the
  challenge is the unpadded base64url encoding of the SHA-256 digest of the verifier, as
  \<open>toString_base64url\<close> computes it without the replacements of the source.
\<close>

theorem generatePKCE_pair:
  assumes "length (randomBytes lib 64) = 64"
  shows "length (verifier (generatePKCE lib)) = 64 \<and>
         set (verifier (generatePKCE lib)) \<subseteq> set b64url_alphabet \<and>
         verifier (generatePKCE lib) = take 64 (toString_base64url (randomBytes lib 64)) \<and>
         challenge (generatePKCE lib) = toString_base64url (sha256 lib (verifier (generatePKCE lib)))"
proof -
  have v: "verifier (generatePKCE lib) = take 64 (toString_base64url (randomBytes lib 64))"
    by (simp add: generatePKCE_def generateRandomString_def Let_def base64_to_url_toString_base64)
  have c: "challenge (generatePKCE lib) = toString_base64url (sha256 lib (verifier (generatePKCE lib)))"
    by (simp add: generatePKCE_def Let_def base64_to_url_toString_base64)
  have l: "length (verifier (generatePKCE lib)) = 64"
    using length_toString_base64url[of "randomBytes lib 64"] assms by (simp add: v)
  have s: "set (verifier (generatePKCE lib)) \<subseteq> set b64url_alphabet"
    unfolding v using toString_base64url_chars[of "randomBytes lib 64"]
    by (meson set_take_subset subset_trans)
  from v c l s show ?thesis by simp
qed

lemma demo_pkce: "generatePKCE demo_crypto =
   \<lparr>challenge = ''LV92Ny1fdjctX3Y3LV92Ny1fdjctX3Y3LV92Ny1fdjc'',
    verifier = ''-_v7-_v7-_v7-_v7-_v7-_v7-_v7-_v7-_v7-_v7-_v7-_v7-_v7-_v7-_v7-_v7''\<rparr>"
  by code_simp

theorem generatePKCE_pair_witness:
  "length (randomBytes demo_crypto 64) = 64 \<and>
   verifier (generatePKCE demo_crypto) =
     ''-_v7-_v7-_v7-_v7-_v7-_v7-_v7-_v7-_v7-_v7-_v7-_v7-_v7-_v7-_v7-_v7'' \<and>
   length (verifier (generatePKCE demo_crypto)) = 64 \<and>
   challenge (generatePKCE demo_crypto) =
     toString_base64url (sha256 demo_crypto (verifier (generatePKCE demo_crypto)))"
proof -
  have h: "length (randomBytes demo_crypto 64) = 64" by (simp add: demo_crypto_def)
  note t = generatePKCE_pair[OF h]
  have v: "verifier (generatePKCE demo_crypto) =
     ''-_v7-_v7-_v7-_v7-_v7-_v7-_v7-_v7-_v7-_v7-_v7-_v7-_v7-_v7-_v7-_v7''"
    by (simp add: demo_pkce)
  show ?thesis
    by (intro conjI) (rule h, rule v, rule t[THEN conjunct1],
        rule t[THEN conjunct2, THEN conjunct2, THEN conjunct2])
qed

section \<open>Properties of the token manager\<close>



lemma map_of_replace:
  "map_of (map (\<lambda>e. if fst e = a then (a, t) else e) s) b =
     (if b = a then map_option (\<lambda>_. t) (map_of s a) else map_of s b)"
  by (induction s) auto

lemma stored_iff: "a \<in> fst ` set s \<longleftrightarrow> map_of s a \<noteq> None"
  by (simp add: map_of_eq_None_iff)

lemma get_after_store:
  "getAntigravityTokens a (storeAntigravityTokens a t s) = Some t"
  by (auto simp: getAntigravityTokens_def storeAntigravityTokens_def map_of_replace map_add_def stored_iff)



lemma get_Some_listed:
  "getAntigravityTokens a s = Some t \<Longrightarrow> a \<in> set (listAntigravityAccounts s)"
  by (auto simp: getAntigravityTokens_def listAntigravityAccounts_def dest: map_of_SomeD intro: rev_image_eqI)

lemma refresh_effect:
  "refreshAccessToken env rt w =
     ((case token_refresh env (length (refresh_requests w)) rt of
         OkJson p \<Rightarrow> Inr \<lparr>new_accessToken = access_token p,
                         new_expiresAt = clock env (ticks w) + expires_in p * 1000\<rparr>
       | Throws t \<Rightarrow> Inl (message_of t)
       | NotOk e \<Rightarrow> Inl e
       | BodyThrows t \<Rightarrow> Inl (message_of t)),
      w\<lparr>ticks := Suc (ticks w), refresh_requests := refresh_requests w @ [rt]\<rparr>)"
  by (simp add: refreshAccessToken_def read_clock_def calculateTokenExpiry_def split: fetched.splits)

lemma getValidAccessToken_cases:
  assumes "getAntigravityTokens accountId (store w) = Some tokens"
    and "getValidAccessToken env accountId w = (res, w')"
  shows "if expiresAt tokens - clock env (ticks w) \<le> 5 * 60 * 1000 then
           refresh_requests w' = refresh_requests w @ [refreshToken tokens] \<and>
           (case token_refresh env (length (refresh_requests w)) (refreshToken tokens) of
              OkJson payload \<Rightarrow>
                res = Some \<lparr>token = access_token payload, token_projectId = projectId tokens\<rparr> \<and>
                getAntigravityTokens accountId (store w') =
                  Some (tokens\<lparr>accessToken := access_token payload,
                               expiresAt := clock env (Suc (ticks w)) + expires_in payload * 1000,
                               lastUsedAt := Some (clock env (Suc (Suc (ticks w))))\<rparr>)
            | Throws t \<Rightarrow> res = None
            | NotOk e \<Rightarrow> res = None
            | BodyThrows t \<Rightarrow> res = None)
         else
           refresh_requests w' = refresh_requests w \<and>
           res = Some \<lparr>token = accessToken tokens, token_projectId = projectId tokens\<rparr> \<and>
           getAntigravityTokens accountId (store w') =
             Some (tokens\<lparr>lastUsedAt := Some (clock env (Suc (ticks w)))\<rparr>)"
  using assms
  by (auto simp: getValidAccessToken_def read_clock_def refresh_effect TOKEN_REFRESH_BUFFER_MS_def
      get_after_store Let_def split: fetched.splits)

text \<open>
  Claim C3. For a stored record, \<open>getValidAccessToken\<close> refreshes exactly when
  \<open>expiresAt - now\<close> is at most the buffer of five minutes. Then one refresh-grant request is
  sent, with the stored refresh token; when the provider answers with a payload the result is
  the new access token and the record holds it; when the request fails in any way the result
  is absent. When more than the buffer remains, no request is sent, the stored access token is
  returned and the record changes in \<open>lastUsedAt\<close> only.
\<close>

theorem getValidAccessToken_refresh_rule:
  assumes "getAntigravityTokens accountId (store w) = Some tokens"
    and "getValidAccessToken env accountId w = (res, w')"
  shows "TOKEN_REFRESH_BUFFER_MS = 300000 \<and>
         (if expiresAt tokens - clock env (ticks w) \<le> TOKEN_REFRESH_BUFFER_MS then
            refresh_requests w' = refresh_requests w @ [refreshToken tokens] \<and>
            (case token_refresh env (length (refresh_requests w)) (refreshToken tokens) of
               OkJson payload \<Rightarrow>
                 res = Some \<lparr>token = access_token payload, token_projectId = projectId tokens\<rparr> \<and>
                 getAntigravityTokens accountId (store w') =
                   Some (tokens\<lparr>accessToken := access_token payload,
                                expiresAt := clock env (Suc (ticks w)) + expires_in payload * 1000,
                                lastUsedAt := Some (clock env (Suc (Suc (ticks w))))\<rparr>)
             | Throws t \<Rightarrow> res = None
             | NotOk e \<Rightarrow> res = None
             | BodyThrows t \<Rightarrow> res = None)
          else
            refresh_requests w' = refresh_requests w \<and>
            res = Some \<lparr>token = accessToken tokens, token_projectId = projectId tokens\<rparr> \<and>
            getAntigravityTokens accountId (store w') =
              Some (tokens\<lparr>lastUsedAt := Some (clock env (Suc (ticks w)))\<rparr>))"
  using getValidAccessToken_cases[OF assms] by (simp add: TOKEN_REFRESH_BUFFER_MS_def)


lemma failure_keeps_store:
  assumes "getValidAccessToken env accountId w = (None, w')"
  shows "store w' = store w \<and> plugin_file w' = plugin_file w"
  using assms
  by (auto simp: getValidAccessToken_def read_clock_def refresh_effect Let_def
      split: option.splits if_splits fetched.splits sum.splits)

text \<open>
  Claim C10. When the refresh inside \<open>getValidAccessToken\<close> fails, the result is absent and
  the credential store is what it was: the record is there with every field as before, the
  account is still listed, and the snapshot file is untouched. A later call that still finds
  the token within the buffer sends the same refresh token again.
\<close>

theorem failed_refresh_keeps_record:
  assumes "getAntigravityTokens accountId (store w) = Some tokens"
    and "expiresAt tokens - clock env (ticks w) \<le> TOKEN_REFRESH_BUFFER_MS"
    and "\<forall>payload. token_refresh env (length (refresh_requests w)) (refreshToken tokens) \<noteq> OkJson payload"
    and "getValidAccessToken env accountId w = (res, w')"
  shows "res = None \<and> store w' = store w \<and> plugin_file w' = plugin_file w \<and>
         getAntigravityTokens accountId (store w') = Some tokens \<and>
         listAntigravityAccounts (store w') = listAntigravityAccounts (store w) \<and>
         accountId \<in> set (listAntigravityAccounts (store w')) \<and>
         (expiresAt tokens - clock env (ticks w') \<le> TOKEN_REFRESH_BUFFER_MS \<longrightarrow>
            refresh_requests (snd (getValidAccessToken env accountId w')) =
              refresh_requests w @ [refreshToken tokens, refreshToken tokens])"
proof -
  have r: "res = None"
    using assms by (auto simp: getValidAccessToken_def read_clock_def refresh_effect Let_def
        split: fetched.splits)
  with assms(4) failure_keeps_store[of env accountId w w']
  have s: "store w' = store w" "plugin_file w' = plugin_file w" by simp_all
  have q: "refresh_requests w' = refresh_requests w @ [refreshToken tokens]"
    using getValidAccessToken_cases[OF assms(1) assms(4)] assms(2)
    by (simp add: TOKEN_REFRESH_BUFFER_MS_def)
  have l: "accountId \<in> set (listAntigravityAccounts (store w))"
    using assms(1) by (rule get_Some_listed)
  have again: "refresh_requests (snd (getValidAccessToken env accountId w')) =
              refresh_requests w @ [refreshToken tokens, refreshToken tokens]"
    if "expiresAt tokens - clock env (ticks w') \<le> TOKEN_REFRESH_BUFFER_MS"
  proof -
    have g: "getAntigravityTokens accountId (store w') = Some tokens" using s assms(1) by simp
    obtain res2 w2 where e: "getValidAccessToken env accountId w' = (res2, w2)" by force
    from getValidAccessToken_cases[OF g e] that q show ?thesis
      by (simp add: TOKEN_REFRESH_BUFFER_MS_def e)
  qed
  from r s l again assms(1) show ?thesis by simp
qed



lemma after_failures_store:
  "after_failures env ids w = Some w' \<Longrightarrow> store w' = store w \<and> plugin_file w' = plugin_file w"
proof (induction ids arbitrary: w)
  case Nil
  then show ?case by simp
next
  case (Cons a ids)
  obtain r w1 where g: "getValidAccessToken env a w = (r, w1)" by force
  with Cons.prems have r: "r = None" and rest: "after_failures env ids w1 = Some w'"
    by (auto split: option.splits)
  from failure_keeps_store[of env a w w1] g r have "store w1 = store w \<and> plugin_file w1 = plugin_file w"
    by simp
  with Cons.IH[OF rest] show ?case by simp
qed

lemma try_accounts_all_fail:
  "after_failures env ids w = Some w' \<Longrightarrow> try_accounts env ids w = (None, w')"
proof (induction ids arbitrary: w)
  case Nil
  then show ?case by simp
next
  case (Cons a ids)
  obtain r w1 where g: "getValidAccessToken env a w = (r, w1)" by force
  with Cons.prems have r: "r = None" and rest: "after_failures env ids w1 = Some w'"
    by (auto split: option.splits)
  from Cons.IH[OF rest] g r show ?case by simp
qed

lemma try_accounts_none:
  "fst (try_accounts env ids w) = None \<Longrightarrow> after_failures env ids w = Some (snd (try_accounts env ids w))"
proof (induction ids arbitrary: w)
  case Nil
  then show ?case by simp
next
  case (Cons a ids)
  obtain r w1 where g: "getValidAccessToken env a w = (r, w1)" by force
  show ?case
  proof (cases r)
    case None
    with g Cons.prems have "fst (try_accounts env ids w1) = None" by simp
    from Cons.IH[OF this] g None show ?thesis by simp
  next
    case (Some v)
    with g Cons.prems show ?thesis by simp
  qed
qed

lemma try_accounts_first_success:
  assumes "after_failures env pre w = Some w0"
    and "getValidAccessToken env a w0 = (Some r, w')"
  shows "try_accounts env (pre @ a # post) w =
           (Some \<lparr>any_accountId = a, any_token = token r, any_projectId = token_projectId r\<rparr>, w')"
  using assms
proof (induction pre arbitrary: w)
  case Nil
  then show ?case by simp
next
  case (Cons b pre)
  obtain rb w1 where g: "getValidAccessToken env b w = (rb, w1)" by force
  with Cons.prems(1) have r: "rb = None" and rest: "after_failures env pre w1 = Some w0"
    by (auto split: option.splits)
  from Cons.IH[OF rest Cons.prems(2)] g r show ?case by simp
qed

lemma try_accounts_some:
  "try_accounts env ids w = (Some t, w') \<Longrightarrow>
   \<exists>pre post w0 r. ids = pre @ any_accountId t # post \<and> after_failures env pre w = Some w0 \<and>
      getValidAccessToken env (any_accountId t) w0 = (Some r, w') \<and>
      any_token t = token r \<and> any_projectId t = token_projectId r"
proof (induction ids arbitrary: w)
  case Nil
  then show ?case by simp
next
  case (Cons a ids)
  obtain r w1 where g: "getValidAccessToken env a w = (r, w1)" by force
  show ?case
  proof (cases r)
    case None
    with g Cons.prems have "try_accounts env ids w1 = (Some t, w')" by simp
    from Cons.IH[OF this] obtain pre post w0 r' where
      h: "ids = pre @ any_accountId t # post" "after_failures env pre w1 = Some w0"
      "getValidAccessToken env (any_accountId t) w0 = (Some r', w')"
      "any_token t = token r'" "any_projectId t = token_projectId r'" by blast
    have "a # ids = (a # pre) @ any_accountId t # post" using h(1) by simp
    moreover have "after_failures env (a # pre) w = Some w0" using g None h(2) by simp
    ultimately show ?thesis using h(3,4,5) by blast
  next
    case (Some v)
    with g Cons.prems have t: "t = \<lparr>any_accountId = a, any_token = token v, any_projectId = token_projectId v\<rparr>"
      and w: "w1 = w'" by auto
    have "a # ids = [] @ any_accountId t # ids \<and> after_failures env [] w = Some w \<and>
      getValidAccessToken env (any_accountId t) w = (Some v, w') \<and>
      any_token t = token v \<and> any_projectId t = token_projectId v"
      using g Some w t by simp
    then show ?thesis by blast
  qed
qed

text \<open>
  Claim C9. \<open>getAnyValidAccessToken\<close> goes through the listed ids in their order. When the
  accounts before \<open>a\<close> all fail and \<open>a\<close> succeeds, the result is the token of \<open>a\<close> with the
  id \<open>a\<close>, and the failures before it have left the store as it was. The result is absent
  exactly when every listed account fails, and a present result is always the first success.
\<close>

theorem getAnyValidAccessToken_first_success:
  "(listAntigravityAccounts (store w) = pre @ a # post \<and> after_failures env pre w = Some w0 \<and>
      getValidAccessToken env a w0 = (Some r, w')
    \<longrightarrow> getAnyValidAccessToken env w =
          (Some \<lparr>any_accountId = a, any_token = token r, any_projectId = token_projectId r\<rparr>, w') \<and>
        store w0 = store w) \<and>
   (after_failures env (listAntigravityAccounts (store w)) w = Some w1
    \<longrightarrow> getAnyValidAccessToken env w = (None, w1)) \<and>
   (fst (getAnyValidAccessToken env w) = None
    \<longrightarrow> after_failures env (listAntigravityAccounts (store w)) w = Some (snd (getAnyValidAccessToken env w))) \<and>
   (getAnyValidAccessToken env w = (Some t, w2)
    \<longrightarrow> (\<exists>pre' post' w0' r'. listAntigravityAccounts (store w) = pre' @ any_accountId t # post' \<and>
           after_failures env pre' w = Some w0' \<and>
           getValidAccessToken env (any_accountId t) w0' = (Some r', w2) \<and>
           any_token t = token r' \<and> any_projectId t = token_projectId r'))"
proof (intro conjI impI)
  assume a: "listAntigravityAccounts (store w) = pre @ a # post \<and> after_failures env pre w = Some w0 \<and>
      getValidAccessToken env a w0 = (Some r, w')"
  then show "getAnyValidAccessToken env w =
          (Some \<lparr>any_accountId = a, any_token = token r, any_projectId = token_projectId r\<rparr>, w')"
    using try_accounts_first_success[of env pre w w0 a r w' post]
    by (simp add: getAnyValidAccessToken_def)
  from a show "store w0 = store w"
    using after_failures_store[of env pre w w0] by simp
next
  assume "after_failures env (listAntigravityAccounts (store w)) w = Some w1"
  then show "getAnyValidAccessToken env w = (None, w1)"
    unfolding getAnyValidAccessToken_def by (rule try_accounts_all_fail)
next
  assume "fst (getAnyValidAccessToken env w) = None"
  then show "after_failures env (listAntigravityAccounts (store w)) w =
      Some (snd (getAnyValidAccessToken env w))"
    unfolding getAnyValidAccessToken_def by (rule try_accounts_none)
next
  assume "getAnyValidAccessToken env w = (Some t, w2)"
  then show "\<exists>pre' post' w0' r'. listAntigravityAccounts (store w) = pre' @ any_accountId t # post' \<and>
           after_failures env pre' w = Some w0' \<and>
           getValidAccessToken env (any_accountId t) w0' = (Some r', w2) \<and>
           any_token t = token r' \<and> any_projectId t = token_projectId r'"
    unfolding getAnyValidAccessToken_def by (rule try_accounts_some)
qed



lemmas demo_simps =
  demo_world_def demo_provider_def demo_record_def getValidAccessToken_def getAntigravityTokens_def
  storeAntigravityTokens_def listAntigravityAccounts_def read_clock_def refreshAccessToken_def
  calculateTokenExpiry_def TOKEN_REFRESH_BUFFER_MS_def message_of_def Let_def

theorem getValidAccessToken_refresh_rule_witness:
  "getAntigravityTokens ''C'' (store demo_world) = Some (demo_record ''stale-C'' ''refresh-C'' 5200000) \<and>
   fst (getValidAccessToken demo_provider ''C'' demo_world) =
     Some \<lparr>token = ''fresh-access'', token_projectId = ''rising-fact-p41fc''\<rparr> \<and>
   refresh_requests (snd (getValidAccessToken demo_provider ''C'' demo_world)) = [''refresh-C''] \<and>
   getAntigravityTokens ''B'' (store demo_world) = Some (demo_record ''access-B'' ''refresh-B'' 9000000) \<and>
   fst (getValidAccessToken demo_provider ''B'' demo_world) =
     Some \<lparr>token = ''access-B'', token_projectId = ''rising-fact-p41fc''\<rparr> \<and>
   refresh_requests (snd (getValidAccessToken demo_provider ''B'' demo_world)) = []"
  using getValidAccessToken_refresh_rule[of "''C''" demo_world "demo_record ''stale-C'' ''refresh-C'' 5200000"
      demo_provider "fst (getValidAccessToken demo_provider ''C'' demo_world)"
      "snd (getValidAccessToken demo_provider ''C'' demo_world)"]
    getValidAccessToken_refresh_rule[of "''B''" demo_world "demo_record ''access-B'' ''refresh-B'' 9000000"
      demo_provider "fst (getValidAccessToken demo_provider ''B'' demo_world)"
      "snd (getValidAccessToken demo_provider ''B'' demo_world)"]
  unfolding TOKEN_REFRESH_BUFFER_MS_def
  by (simp add: demo_simps)

theorem failed_refresh_keeps_record_witness:
  "getAntigravityTokens ''A'' (store demo_world) = Some (demo_record ''stale-A'' ''refresh-A'' 5000000) \<and>
   token_refresh demo_provider 0 ''refresh-A'' = NotOk ''invalid_grant'' \<and>
   fst (getValidAccessToken demo_provider ''A'' demo_world) = None \<and>
   store (snd (getValidAccessToken demo_provider ''A'' demo_world)) = store demo_world \<and>
   refresh_requests (snd (getValidAccessToken demo_provider ''A''
       (snd (getValidAccessToken demo_provider ''A'' demo_world)))) = [''refresh-A'', ''refresh-A'']"
  using failed_refresh_keeps_record[of "''A''" demo_world "demo_record ''stale-A'' ''refresh-A'' 5000000"
      demo_provider "fst (getValidAccessToken demo_provider ''A'' demo_world)"
      "snd (getValidAccessToken demo_provider ''A'' demo_world)"]
  by (simp add: demo_simps)



theorem getAnyValidAccessToken_first_success_witness:
  "listAntigravityAccounts (store demo_world) = [''A''] @ ''B'' # [''C''] \<and>
   fst (getValidAccessToken demo_provider ''A'' demo_world) = None \<and>
   getAnyValidAccessToken demo_provider demo_world =
     (Some \<lparr>any_accountId = ''B'', any_token = ''access-B'', any_projectId = ''rising-fact-p41fc''\<rparr>,
      snd (getValidAccessToken demo_provider ''B'' (snd (getValidAccessToken demo_provider ''A'' demo_world))))"
  using getAnyValidAccessToken_first_success[of demo_world "[''A'']" "''B''" "[''C'']" demo_provider
      "snd (getValidAccessToken demo_provider ''A'' demo_world)"
      "\<lparr>token = ''access-B'', token_projectId = ''rising-fact-p41fc''\<rparr>"
      "snd (getValidAccessToken demo_provider ''B'' (snd (getValidAccessToken demo_provider ''A'' demo_world)))"]
  by (simp add: demo_simps)

text \<open>
  Claim C5 at a concrete input. The snapshot file is in step with the store; then
  \<open>getValidAccessToken\<close> updates \<open>lastUsedAt\<close> of account B in the store and leaves the file
  as it was, so the file differs from the snapshot a regeneration would write.
\<close>

theorem getValidAccessToken_leaves_snapshot_stale:
  "plugin_file (syncToOpenCodePlugin demo_world) =
     Some \<lparr>version = 3,
       accounts = [plugin_entry (demo_record ''stale-A'' ''refresh-A'' 5000000),
                   plugin_entry (demo_record ''access-B'' ''refresh-B'' 9000000),
                   plugin_entry (demo_record ''stale-C'' ''refresh-C'' 5200000)],
       activeIndex = 0\<rparr> \<and>
   getAntigravityTokens ''B'' (store (snd (getValidAccessToken demo_provider ''B'' (syncToOpenCodePlugin demo_world)))) =
     Some ((demo_record ''access-B'' ''refresh-B'' 9000000)\<lparr>lastUsedAt := Some 5000001\<rparr>) \<and>
   plugin_file (snd (getValidAccessToken demo_provider ''B'' (syncToOpenCodePlugin demo_world))) =
     plugin_file (syncToOpenCodePlugin demo_world) \<and>
   plugin_file (syncToOpenCodePlugin (snd (getValidAccessToken demo_provider ''B'' (syncToOpenCodePlugin demo_world)))) =
     Some \<lparr>version = 3,
       accounts = [plugin_entry (demo_record ''stale-A'' ''refresh-A'' 5000000),
                   plugin_entry ((demo_record ''access-B'' ''refresh-B'' 9000000)\<lparr>lastUsedAt := Some 5000001\<rparr>),
                   plugin_entry (demo_record ''stale-C'' ''refresh-C'' 5200000)],
       activeIndex = 0\<rparr> \<and>
   lastUsed (plugin_entry (demo_record ''access-B'' ''refresh-B'' 9000000)) = 1000 \<and>
   lastUsed (plugin_entry ((demo_record ''access-B'' ''refresh-B'' 9000000)\<lparr>lastUsedAt := Some 5000001\<rparr>)) = 5000001"
  by (simp add: demo_simps syncToOpenCodePlugin_def plugin_entry_def)

section \<open>Properties of the exchange and of login\<close>

lemma correlated_settled:
  assumes "correlated k s st" "promises st ! k \<noteq> Pending"
  shows "correlated k s (step e st)"
proof -
  from assms have "k < length (promises st)" by (simp add: correlated_def)
  from step_settled[OF this assms(2), of e] assms show ?thesis
    by (cases "promises st ! k") (simp_all add: correlated_def)
qed

lemma correlated_pending:
  assumes "k < length (promises st)" "promises st ! k = Pending"
    "pendingOAuth st = Some \<lparr>flow = k, expected = s\<rparr>"
  shows "correlated k s (step e st)"
proof (cases e)
  case (Start b)
  then show ?thesis using assms by (simp add: correlated_def startOAuthServer_def)
next
  case Stop
  then show ?thesis using assms
    by (simp add: correlated_def stopOAuthServer_def Let_def reject_nth reject_length)
next
  case (Wait s' ms)
  then show ?thesis using assms
    by (simp add: correlated_def waitForOAuthCallback_def Let_def reject_nth reject_length nth_append)
next
  case (Request req)
  then show ?thesis using assms
    by (auto simp add: correlated_def handleRequest_def Let_def reject_nth reject_length
        resolve_nth resolve_length split: option.splits)
next
  case (Timeout j)
  have c: "promises (clearTimeout j st) = promises st" "pendingOAuth (clearTimeout j st) = pendingOAuth st"
    by (simp_all add: clearTimeout_def)
  from Timeout show ?thesis using assms
    by (simp add: correlated_def timeout_fires_def Let_def reject_nth reject_length c)
qed

lemma correlated_step: "correlated k s st \<Longrightarrow> correlated k s (step e st)"
proof (cases "promises st ! k = Pending")
  case True
  assume c: "correlated k s st"
  with True have "k < length (promises st)" "pendingOAuth st = Some \<lparr>flow = k, expected = s\<rparr>"
    by (simp_all add: correlated_def)
  with True show ?thesis by (intro correlated_pending)
next
  case False
  assume "correlated k s st"
  with False show ?thesis by (intro correlated_settled)
qed

lemma correlated_run: "correlated k s st \<Longrightarrow> correlated k s (run evs st)"
  unfolding run_def by (induction evs arbitrary: st) (simp_all add: correlated_step)

lemma correlated_wait:
  assumes "\<And>p. pendingOAuth st = Some p \<Longrightarrow> flow p < length (promises st)"
  shows "correlated (fst (waitForOAuthCallback s ms st)) s (snd (waitForOAuthCallback s ms st))"
proof (cases "pendingOAuth st")
  case None
  then show ?thesis
    by (simp add: correlated_def waitForOAuthCallback_def Let_def)
next
  case (Some p)
  with assms have "flow p < length (promises st)" by simp
  with Some show ?thesis
    by (simp add: correlated_def waitForOAuthCallback_def Let_def flow_reject_def clearTimeout_def
      settle_def nth_append)
qed

lemma awaited_resolved_state:
  assumes "awaited_callback lib desk (run evs0 initial) = Resolved cb"
  shows "state cb = auth_state (buildAuthorizationUrl lib [])"
proof -
  define l0 where "l0 = run evs0 initial"
  define l1 where "l1 = snd (startOAuthServer (bound desk) l0)"
  define s where "s = auth_state (buildAuthorizationUrl lib [])"
  define k where "k = fst (waitForOAuthCallback s (5 * 60 * 1000) l1)"
  define l2 where "l2 = snd (waitForOAuthCallback s (5 * 60 * 1000) l1)"
  have l1: "l1 = run (evs0 @ [Start (bound desk)]) initial"
    by (simp add: l1_def l0_def run_def)
  have "flow p < length (promises l1)" if "pendingOAuth l1 = Some p" for p
    using pending_is_live[of "evs0 @ [Start (bound desk)]" p] that by (simp add: l1)
  then have "correlated k s l2" unfolding k_def l2_def by (rule correlated_wait)
  then have c: "correlated k s (run (while_waiting desk) l2)" by (rule correlated_run)
  have "awaited_callback lib desk l0 = promises (run (while_waiting desk) l2) ! k"
    by (simp add: awaited_callback_def Let_def split_beta l1_def s_def k_def l2_def)
  with assms have "promises (run (while_waiting desk) l2) ! k = Resolved cb" by (simp add: l0_def)
  with c show ?thesis by (simp add: correlated_def s_def)
qed

lemma exchange_missing_refresh_token:
  assumes "decodeState st = Inr auth"
    and "token_exchange env cd (state_verifier auth) = OkJson payload"
    and "\<not> truthy (refresh_token payload)"
  shows "exchangeCodeForTokens env cd st w =
           (Failed (exchange_error env payload), w\<lparr>ticks := Suc (ticks w)\<rparr>)"
  using assms
  by (simp add: exchangeCodeForTokens_def exchange_error_def read_clock_def Let_def
      split: fetched.splits)

lemma exchange_keeps_store:
  "store (snd (exchangeCodeForTokens env cd st w)) = store w \<and>
   plugin_file (snd (exchangeCodeForTokens env cd st w)) = plugin_file w"
  by (simp add: exchangeCodeForTokens_def read_clock_def Let_def
      split: sum.splits fetched.splits)

lemma buildAuthorizationUrl_state:
  "decodeState (auth_state (buildAuthorizationUrl lib project)) =
     Inr \<lparr>state_verifier = verifier (generatePKCE lib), state_projectId = project\<rparr>"
  by (simp add: buildAuthorizationUrl_def Let_def decodeState_encodeState_id)

lemma login_resolved:
  assumes "fst (startOAuthServer (bound desk) l0)"
    and "openExternal desk = None"
    and "awaited_callback lib desk l0 = Resolved cb"
    and "exchangeCodeForTokens env (code cb) (state cb) w = (Failed msg, w1)"
  shows "fst (login lib env desk (l0, w)) = Some (login_failed msg) \<and>
         snd (snd (login lib env desk (l0, w))) = w1"
  using assms
  by (simp add: login_def awaited_callback_def Let_def split_beta)

lemma login_failure_keeps_store:
  assumes "login lib env desk (l0, w) = (res, l', w')"
    and "res = None \<or> (\<exists>r. res = Some r \<and> \<not> success r)"
  shows "store w' = store w \<and> plugin_file w' = plugin_file w"
proof -
  have e: "store (snd (exchangeCodeForTokens env c s w)) = store w"
    "plugin_file (snd (exchangeCodeForTokens env c s w)) = plugin_file w" for c s
    using exchange_keeps_store[of env c s w] by simp_all
  show ?thesis
    using assms e
    by (auto simp add: login_def Let_def split_beta login_failed_def
        split: if_splits option.splits promise_state.splits TokenExchangeResult.splits)
qed

lemma encodeState_nonempty: "encodeState a \<noteq> []"
proof -
  let ?t = "JSON_stringify (JObject [(''verifier'', JString (state_verifier a)),
                                     (''projectId'', JString (state_projectId a))])"
  have "0 < length ?t" by simp
  with length_toString_base64url[of ?t] have "0 < length (toString_base64url ?t)" by linarith
  then show ?thesis by (simp add: encodeState_def del: JSON_stringify.simps)
qed

lemma auth_state_nonempty: "auth_state (buildAuthorizationUrl lib project) \<noteq> []"
  by (simp add: buildAuthorizationUrl_def Let_def encodeState_nonempty)

lemma demo_awaited:
  "awaited_callback demo_crypto demo_desktop (run [] initial) =
     Resolved \<lparr>code = ''abc123'', state = auth_state (buildAuthorizationUrl demo_crypto [])\<rparr>"
  using auth_state_nonempty[of demo_crypto "[]"]
  by (simp add: awaited_callback_def demo_desktop_def run_def initial_def startOAuthServer_def
      waitForOAuthCallback_def Let_def handleRequest_def get_param_def truthy_def
      flow_resolve_def clearTimeout_def settle_def)

text \<open>
  What the code does when the token endpoint answers the exchange with a payload that has no
  refresh token (or an empty one). \<open>exchangeCodeForTokens\<close> fails with the error that
  \<open>exchange_error\<close> gives: \<open>Missing refresh token in response\<close> when the user-info request
  neither throws nor has an unreadable body, and the message of that failure otherwise. A
  \<open>login\<close> whose callback was resolved returns \<open>success: false\<close> with that same error and
  leaves the credential store and the snapshot file as they were.
\<close>

lemma login_without_refresh_token:
  assumes "token_exchange env cd v = OkJson payload"
    and "\<not> truthy (refresh_token payload)"
  shows "(decodeState st = Inr auth \<and> state_verifier auth = v \<longrightarrow>
            exchangeCodeForTokens env cd st w =
              (Failed (exchange_error env payload), w\<lparr>ticks := Suc (ticks w)\<rparr>)) \<and>
         (fst (startOAuthServer (bound desk) (run evs0 initial)) \<and> openExternal desk = None \<and>
          awaited_callback lib desk (run evs0 initial) = Resolved cb \<and> code cb = cd \<and>
          verifier (generatePKCE lib) = v \<longrightarrow>
            fst (login lib env desk (run evs0 initial, w)) =
              Some (login_failed (exchange_error env payload)) \<and>
            store (snd (snd (login lib env desk (run evs0 initial, w)))) = store w \<and>
            plugin_file (snd (snd (login lib env desk (run evs0 initial, w)))) = plugin_file w) \<and>
         ((\<forall>t. userinfo env (access_token payload) \<noteq> Throws t) \<and>
          (\<forall>t. userinfo env (access_token payload) \<noteq> BodyThrows t) \<longrightarrow>
            exchange_error env payload = ''Missing refresh token in response'')"
proof (intro conjI impI)
  assume a: "decodeState st = Inr auth \<and> state_verifier auth = v"
  then have d: "decodeState st = Inr auth" and t: "token_exchange env cd (state_verifier auth) = OkJson payload"
    using assms(1) by simp_all
  show "exchangeCodeForTokens env cd st w =
          (Failed (exchange_error env payload), w\<lparr>ticks := Suc (ticks w)\<rparr>)"
    using d t assms(2) by (rule exchange_missing_refresh_token)
next
  assume a: "fst (startOAuthServer (bound desk) (run evs0 initial)) \<and> openExternal desk = None \<and>
          awaited_callback lib desk (run evs0 initial) = Resolved cb \<and> code cb = cd \<and>
          verifier (generatePKCE lib) = v"
  then have started: "fst (startOAuthServer (bound desk) (run evs0 initial))"
    and opened: "openExternal desk = None"
    and cb: "awaited_callback lib desk (run evs0 initial) = Resolved cb"
    and cd: "code cb = cd" and v: "verifier (generatePKCE lib) = v" by simp_all
  have s: "state cb = auth_state (buildAuthorizationUrl lib [])"
    using cb by (rule awaited_resolved_state)
  have d: "decodeState (state cb) =
             Inr \<lparr>state_verifier = verifier (generatePKCE lib), state_projectId = []\<rparr>"
    unfolding s by (rule buildAuthorizationUrl_state)
  have t: "token_exchange env (code cb)
             (state_verifier \<lparr>state_verifier = verifier (generatePKCE lib), state_projectId = []\<rparr>)
           = OkJson payload"
    using assms(1) cd v by simp
  have e: "exchangeCodeForTokens env (code cb) (state cb) w =
             (Failed (exchange_error env payload), w\<lparr>ticks := Suc (ticks w)\<rparr>)"
    using d t assms(2) by (rule exchange_missing_refresh_token)
  from login_resolved[OF started opened cb e]
  have r: "fst (login lib env desk (run evs0 initial, w)) = Some (login_failed (exchange_error env payload))"
    and w': "snd (snd (login lib env desk (run evs0 initial, w))) = w\<lparr>ticks := Suc (ticks w)\<rparr>"
    by simp_all
  show "fst (login lib env desk (run evs0 initial, w)) = Some (login_failed (exchange_error env payload))"
    by (rule r)
  show "store (snd (snd (login lib env desk (run evs0 initial, w)))) = store w"
    by (simp add: w')
  show "plugin_file (snd (snd (login lib env desk (run evs0 initial, w)))) = plugin_file w"
    by (simp add: w')
next
  assume "(\<forall>t. userinfo env (access_token payload) \<noteq> Throws t) \<and>
          (\<forall>t. userinfo env (access_token payload) \<noteq> BodyThrows t)"
  then show "exchange_error env payload = ''Missing refresh token in response''"
    by (simp add: exchange_error_def split: fetched.splits)
qed

lemma login_without_refresh_token_example:
  "token_exchange demo_provider ''abc123'' (verifier (generatePKCE demo_crypto)) =
     OkJson \<lparr>access_token = ''first-access'', expires_in = 3600,
             refresh_token = None, token_type = ''Bearer''\<rparr> \<and>
   awaited_callback demo_crypto demo_desktop (run [] initial) =
     Resolved \<lparr>code = ''abc123'', state = auth_state (buildAuthorizationUrl demo_crypto [])\<rparr> \<and>
   fst (login demo_crypto demo_provider demo_desktop (run [] initial, demo_world)) =
     Some \<lparr>success = False, account = None, error = Some ''Missing refresh token in response''\<rparr> \<and>
   store (snd (snd (login demo_crypto demo_provider demo_desktop (run [] initial, demo_world)))) =
     store demo_world"
proof -
  let ?payload = "\<lparr>access_token = ''first-access'', expires_in = 3600,
             refresh_token = None, token_type = ''Bearer''\<rparr>"
  let ?cb = "\<lparr>code = ''abc123'', state = auth_state (buildAuthorizationUrl demo_crypto [])\<rparr>"
  have t: "token_exchange demo_provider ''abc123'' (verifier (generatePKCE demo_crypto)) = OkJson ?payload"
    by (simp add: demo_provider_def)
  have m: "\<not> truthy (refresh_token ?payload)" by (simp add: truthy_def)
  have started: "fst (startOAuthServer (bound demo_desktop) (run [] initial))"
    by (simp add: startOAuthServer_def demo_desktop_def)
  have opened: "openExternal demo_desktop = None" by (simp add: demo_desktop_def)
  have u: "(\<forall>t. userinfo demo_provider (access_token ?payload) \<noteq> Throws t) \<and>
          (\<forall>t. userinfo demo_provider (access_token ?payload) \<noteq> BodyThrows t)"
    by (simp add: demo_provider_def)
  note inst = login_without_refresh_token[OF t m, where desk = demo_desktop and ?evs0.0 = "[]"
      and lib = demo_crypto and cb = ?cb and w = demo_world]
  from inst started opened demo_awaited u
  have "fst (login demo_crypto demo_provider demo_desktop (run [] initial, demo_world)) =
          Some (login_failed ''Missing refresh token in response'')"
    and "store (snd (snd (login demo_crypto demo_provider demo_desktop (run [] initial, demo_world)))) =
          store demo_world"
    by simp_all
  with t demo_awaited show ?thesis by (simp add: login_failed_def)
qed

text \<open>
  Claim C4 at a concrete input. The token endpoint answers the exchange without a refresh
  token. When the user-info endpoint answers, the exchange fails with
  \<open>Missing refresh token in response\<close>. When the user-info request throws, or its body cannot
  be read, the exchange fails with the message of that failure instead, and \<open>login\<close> returns
  that message: the request is made before the refresh token is checked, and only a response
  that is not \<open>ok\<close> is tolerated.
\<close>

theorem userinfo_failure_masks_missing_refresh_token:
  "token_exchange demo_provider ''abc123'' ''secret-verifier'' =
     OkJson \<lparr>access_token = ''first-access'', expires_in = 3600,
             refresh_token = None, token_type = ''Bearer''\<rparr> \<and>
   fst (exchangeCodeForTokens demo_provider
          ''abc123'' (encodeState \<lparr>state_verifier = ''secret-verifier'', state_projectId = []\<rparr>)
          demo_world) = Failed ''Missing refresh token in response'' \<and>
   fst (exchangeCodeForTokens (demo_provider\<lparr>userinfo := \<lambda>bearer. Throws (Error ''fetch failed'')\<rparr>)
          ''abc123'' (encodeState \<lparr>state_verifier = ''secret-verifier'', state_projectId = []\<rparr>)
          demo_world) = Failed ''fetch failed'' \<and>
   fst (exchangeCodeForTokens
          (demo_provider\<lparr>userinfo := \<lambda>bearer. BodyThrows (Error ''Unexpected token'')\<rparr>)
          ''abc123'' (encodeState \<lparr>state_verifier = ''secret-verifier'', state_projectId = []\<rparr>)
          demo_world) = Failed ''Unexpected token'' \<and>
   fst (login demo_crypto (demo_provider\<lparr>userinfo := \<lambda>bearer. Throws (Error ''fetch failed'')\<rparr>)
          demo_desktop (run [] initial, demo_world)) =
     Some \<lparr>success = False, account = None, error = Some ''fetch failed''\<rparr>"
proof -
  let ?payload = "\<lparr>access_token = ''first-access'', expires_in = 3600,
             refresh_token = None, token_type = ''Bearer''\<rparr>"
  let ?env = "demo_provider\<lparr>userinfo := \<lambda>bearer. Throws (Error ''fetch failed'')\<rparr>"
  let ?cb = "\<lparr>code = ''abc123'', state = auth_state (buildAuthorizationUrl demo_crypto [])\<rparr>"
  have a: "token_exchange demo_provider ''abc123'' ''secret-verifier'' = OkJson ?payload"
    by (simp add: demo_provider_def)
  have b: "fst (exchangeCodeForTokens demo_provider
          ''abc123'' (encodeState \<lparr>state_verifier = ''secret-verifier'', state_projectId = []\<rparr>)
          demo_world) = Failed ''Missing refresh token in response''"
    by (simp add: exchangeCodeForTokens_def decodeState_encodeState_id demo_provider_def
        read_clock_def Let_def truthy_def)
  have c: "fst (exchangeCodeForTokens ?env
          ''abc123'' (encodeState \<lparr>state_verifier = ''secret-verifier'', state_projectId = []\<rparr>)
          demo_world) = Failed ''fetch failed''"
    by (simp add: exchangeCodeForTokens_def decodeState_encodeState_id demo_provider_def message_of_def
        read_clock_def Let_def)
  have d: "fst (exchangeCodeForTokens
          (demo_provider\<lparr>userinfo := \<lambda>bearer. BodyThrows (Error ''Unexpected token'')\<rparr>)
          ''abc123'' (encodeState \<lparr>state_verifier = ''secret-verifier'', state_projectId = []\<rparr>)
          demo_world) = Failed ''Unexpected token''"
    by (simp add: exchangeCodeForTokens_def decodeState_encodeState_id demo_provider_def message_of_def
        read_clock_def Let_def)
  have t: "token_exchange ?env ''abc123'' (verifier (generatePKCE demo_crypto)) = OkJson ?payload"
    by (simp add: demo_provider_def)
  have m: "\<not> truthy (refresh_token ?payload)" by (simp add: truthy_def)
  have started: "fst (startOAuthServer (bound demo_desktop) (run [] initial))"
    by (simp add: startOAuthServer_def demo_desktop_def)
  have opened: "openExternal demo_desktop = None" by (simp add: demo_desktop_def)
  have x: "exchange_error ?env ?payload = ''fetch failed''"
    by (simp add: exchange_error_def message_of_def)
  note inst = login_without_refresh_token[OF t m, where desk = demo_desktop and ?evs0.0 = "[]"
      and lib = demo_crypto and cb = ?cb and w = demo_world]
  from inst started opened demo_awaited
  have "fst (login demo_crypto ?env demo_desktop (run [] initial, demo_world)) =
          Some (login_failed (exchange_error ?env ?payload))"
    by simp
  then have e: "fst (login demo_crypto ?env demo_desktop (run [] initial, demo_world)) =
     Some \<lparr>success = False, account = None, error = Some ''fetch failed''\<rparr>"
    by (simp only: x login_failed_def)
  from a b c d e show ?thesis by (intro conjI)
qed

end
